theory Spec2Isabelle
  imports Main
begin

section \<open>The mock transfer payload of the test tools\<close>

text \<open>
  \<^verbatim>\<open>mockNativeDataTransfer\<close> (src/src/test.tools.ts) returns an object with an ordered list
  \<^verbatim>\<open>types\<close>, a list \<^verbatim>\<open>files\<close> that no method touches, a plain object \<^verbatim>\<open>_data\<close> used as a
  dictionary, and the three methods below. \<open>mock_data\<close> holds the object's own entries,
  a map from type strings to values. An assignment to the key \<^verbatim>\<open>'__proto__'\<close> reaches the
  setter the object inherits, which ignores a string, so it stores nothing. \<^verbatim>\<open>getData\<close>
  reads an own entry; \<open>None\<close> says that there is none, where JavaScript reads
  \<^verbatim>\<open>undefined\<close>, or what \<^verbatim>\<open>Object.prototype\<close> holds under a name such as \<^verbatim>\<open>'toString'\<close>.
  Each method mutates the object, so each model takes the object and returns it updated.
\<close>

record dataTransfer =
  types :: "string list"
  files :: "string list"
  mock_data :: "string \<rightharpoonup> string"

definition mockNativeDataTransfer :: dataTransfer where
  "mockNativeDataTransfer = \<lparr> types = [], files = [], mock_data = Map.empty \<rparr>"

text \<open>
  \<^verbatim>\<open>CKEDITOR.tools.indexOf(array, value)\<close> belongs to the editor library: the position of the
  first element equal to the value, \<open>-1\<close> when there is none.
\<close>

fun indexOf :: "'a list \<Rightarrow> 'a \<Rightarrow> int" where
  "indexOf [] v = - 1"
| "indexOf (x # xs) v =
     (if x = v then 0
      else (let i = indexOf xs v in if i = - 1 then - 1 else i + 1))"

text \<open>\<^verbatim>\<open>Array.prototype.splice(index, count)\<close> for an index inside the array.\<close>

definition array_splice :: "nat \<Rightarrow> nat \<Rightarrow> 'a list \<Rightarrow> 'a list" where
  "array_splice index count xs = take index xs @ drop (index + count) xs"

definition setData :: "string \<Rightarrow> string \<Rightarrow> dataTransfer \<Rightarrow> dataTransfer" where
  "setData type v t =
     (let t1 = (if type = ''text/plain'' \<or> type = ''Text''
                then t\<lparr> mock_data := ((mock_data t)(''text/plain'' \<mapsto> v))(''Text'' \<mapsto> v) \<rparr>
                else if type = ''__proto__'' then t
                else t\<lparr> mock_data := (mock_data t)(type \<mapsto> v) \<rparr>)
      in t1\<lparr> types := types t1 @ [type] \<rparr>)"

definition getData :: "string \<Rightarrow> dataTransfer \<Rightarrow> string option" where
  "getData type t = mock_data t type"

definition clearData :: "string \<Rightarrow> dataTransfer \<Rightarrow> dataTransfer" where
  "clearData type t =
     (let index = indexOf (types t) type
      in if index \<noteq> - 1
         then t\<lparr> mock_data := (mock_data t)(type := None),
                 types := array_splice (nat index) 1 (types t) \<rparr>
         else t)"

text \<open>A run of \<^verbatim>\<open>setData\<close> calls, each given as the pair of its arguments.\<close>

fun setData_all :: "(string \<times> string) list \<Rightarrow> dataTransfer \<Rightarrow> dataTransfer" where
  "setData_all [] t = t"
| "setData_all ((type, v) # calls) t = setData_all calls (setData type v t)"

section \<open>The editor instance, as the wrapper and the test tools see it\<close>

text \<open>
  The editor is a library object. The model keeps what the repository's code reads from it
  and writes to it: the serialized content that \<^verbatim>\<open>getData()\<close> returns, the \<^verbatim>\<open>readOnly\<close>
  property, whether \<^verbatim>\<open>undoManager\<close> is there, whether \<^verbatim>\<open>editable().isInline()\<close> holds, and
  the handlers registered with \<^verbatim>\<open>on\<close>. The component's setter notes that
  ``data may be changed by ACF'': what the instance serializes after \<^verbatim>\<open>setData(d)\<close> is
  its own business, so it is the field \<open>acf\<close>, a function of the value written (a string,
  or \<open>None\<close> for \<^verbatim>\<open>null\<close>). The events the library raises by itself are inputs:
  \<open>native_event\<close> below delivers one to the listeners.
\<close>

datatype emitter =
    NamespaceLoaded | Ready | DataReady | Change | DataChange string
  | DragStart | DragEnd | Drop | FileUploadResponse | FileUploadRequest
  | Focus | Paste | AfterPaste | Blur

text \<open>
  The three kinds of listener that \<^verbatim>\<open>subscribe\<close> registers: one that emits an output,
  the blur listener, and \<^verbatim>\<open>propagateChange\<close>.
\<close>

datatype handler = Forward emitter | BlurHandler | PropagateChange

record editor =
  content :: string
  readOnly :: bool
  undoManager :: bool
  isInline :: bool
  listeners :: "(string \<times> handler) list"
  acf :: "string option \<Rightarrow> string"

definition editor_setData :: "string option \<Rightarrow> editor \<Rightarrow> editor" where
  "editor_setData d e = e\<lparr> content := acf e d \<rparr>"

definition editor_getData :: "editor \<Rightarrow> string" where
  "editor_getData e = content e"

definition editor_setReadOnly :: "bool \<Rightarrow> editor \<Rightarrow> editor" where
  "editor_setReadOnly isReadOnly e = e\<lparr> readOnly := isReadOnly \<rparr>"

definition editor_on :: "string \<Rightarrow> handler \<Rightarrow> editor \<Rightarrow> editor" where
  "editor_on name h e = e\<lparr> listeners := listeners e @ [(name, h)] \<rparr>"

section \<open>Sequenced data injection (test tools)\<close>

text \<open>
  A run of the helper: the editor, a clock in milliseconds, every \<^verbatim>\<open>editor.setData\<close> call
  with the time it was made, and the time at which the promise was resolved, if it was.
  \<^verbatim>\<open>setTimeout(f, 100)\<close> runs \<open>f\<close> once the clock has moved 100 ms on; the helper never
  has two timers pending, so the continuation is applied to the run with the clock
  advanced. The caller's array is passed in and handed back as the helper leaves it.
\<close>

record run =
  sut :: editor
  now :: nat
  pushes :: "(nat \<times> string) list"
  resolved :: "nat option"

definition setTimeout :: "nat \<Rightarrow> run \<Rightarrow> run" where
  "setTimeout delay r = r\<lparr> now := now r + delay \<rparr>"

definition push :: "string \<Rightarrow> run \<Rightarrow> run" where
  "push c r = r\<lparr> sut := editor_setData (Some c) (sut r), pushes := pushes r @ [(now r, c)] \<rparr>"

definition res :: "run \<Rightarrow> run" where
  "res r = r\<lparr> resolved := Some (now r) \<rparr>"

text \<open>
  \<^verbatim>\<open>setDataHelper(editor, data, done)\<close>: with an element left, \<^verbatim>\<open>data.shift()\<close> takes the
  first one off the array at once, and the timer's continuation pushes it and calls the
  helper again on what is left; with none left, \<^verbatim>\<open>done\<close> runs after one more timer.
  \<^verbatim>\<open>setDataMultipleTimes\<close> hands the array to the helper when the editor is not inline;
  otherwise \<^verbatim>\<open>forEach\<close> pushes the elements in order, the array stays, and the promise is
  resolved in the same turn.
\<close>

fun setDataHelper :: "string list \<Rightarrow> run \<Rightarrow> string list \<times> run" where
  "setDataHelper [] r = ([], res (setTimeout 100 r))"
| "setDataHelper (c # rest) r = setDataHelper rest (push c (setTimeout 100 r))"

definition setDataMultipleTimes :: "string list \<Rightarrow> run \<Rightarrow> string list \<times> run" where
  "setDataMultipleTimes xs r =
     (if \<not> isInline (sut r) then setDataHelper xs r
      else (xs, res (fold push xs r)))"

section \<open>The wrapper component\<close>

text \<open>
  \<^verbatim>\<open>CKEditorComponent\<close> (src/ckeditor/esm2020/ckeditor.component.mjs). The fields
  \<^verbatim>\<open>_readOnly\<close>, \<^verbatim>\<open>_data\<close> and \<^verbatim>\<open>_destroyed\<close> are \<open>priv_readOnly\<close>, \<open>priv_data\<close> and
  \<open>priv_destroyed\<close>; \<^verbatim>\<open>null\<close> is \<open>None\<close>. \<open>inst\<close> is \<^verbatim>\<open>this.instance\<close>, \<open>None\<close> while it
  is unset or \<^verbatim>\<open>null\<close>. \<open>onChange\<close> and \<open>onTouched\<close> say whether a callback is registered.
  \<open>log\<close> lists, in order, what the component does that an observer can see: the outputs it
  emits, the callbacks it invokes, and its calls of \<^verbatim>\<open>setData\<close>, \<^verbatim>\<open>getData\<close>,
  \<^verbatim>\<open>setReadOnly\<close>, \<^verbatim>\<open>destroy\<close>, \<^verbatim>\<open>fire\<close> and the undo manager's \<^verbatim>\<open>lock\<close> and \<^verbatim>\<open>unlock\<close> on
  the instance. Registrations with \<^verbatim>\<open>on\<close> are kept in the editor's \<open>listeners\<close>.
\<close>

datatype editorType = CLASSIC | INLINE

datatype call =
    SetData "string option" | GetData | SetReadOnly bool | Destroy
  | Fire string | UndoLock | UndoUnlock

datatype action =
    Emit emitter | Call call | OnChange string | OnTouched | UserInstanceReady
  | CreateElement string | Construct editorType | ConsoleError

datatype error = TypeError | InvalidCharacterError | ConstructionError

record component =
  tagName :: string
  ed_type :: editorType
  config_instanceReady :: bool
  inst :: "editor option"
  priv_readOnly :: "bool option"
  priv_data :: "string option"
  priv_destroyed :: bool
  onChange :: bool
  onTouched :: bool
  log :: "action list"

text \<open>The constructor; no configuration is bound yet and no callback is registered.\<close>

definition new_component :: component where
  "new_component =
     \<lparr> tagName = ''textarea'', ed_type = CLASSIC, config_instanceReady = False,
       inst = None, priv_readOnly = None, priv_data = None, priv_destroyed = False,
       onChange = False, onTouched = False, log = [] \<rparr>"

definition record_action :: "action \<Rightarrow> component \<Rightarrow> component" where
  "record_action a c = c\<lparr> log := log c @ [a] \<rparr>"

definition emit :: "emitter \<Rightarrow> component \<Rightarrow> component" where
  "emit out c = record_action (Emit out) c"

text \<open>A method call on the instance the component holds: its effect and its entry in the log.\<close>

definition on_instance :: "call \<Rightarrow> (editor \<Rightarrow> editor) \<Rightarrow> component \<Rightarrow> component" where
  "on_instance k f c = record_action (Call k) (c\<lparr> inst := map_option f (inst c) \<rparr>)"

definition set_data :: "string option \<Rightarrow> component \<Rightarrow> component" where
  "set_data d c =
     (if d = priv_data c then c
      else case inst c of
        Some e \<Rightarrow>
          (let c1 = on_instance (SetData d) (editor_setData d) c;
               c2 = on_instance GetData id c1
           in c2\<lparr> priv_data := map_option editor_getData (inst c2) \<rparr>)
      | None \<Rightarrow> c\<lparr> priv_data := d \<rparr>)"

definition get_data :: "component \<Rightarrow> string option" where
  "get_data c = priv_data c"

definition set_readOnly :: "bool \<Rightarrow> component \<Rightarrow> component" where
  "set_readOnly isReadOnly c =
     (case inst c of
        Some e \<Rightarrow> on_instance (SetReadOnly isReadOnly) (editor_setReadOnly isReadOnly) c
      | None \<Rightarrow> c\<lparr> priv_readOnly := Some isReadOnly \<rparr>)"

definition get_readOnly :: "component \<Rightarrow> bool option" where
  "get_readOnly c =
     (case inst c of
        Some e \<Rightarrow> Some (readOnly e)
      | None \<Rightarrow> priv_readOnly c)"

definition writeValue :: "string option \<Rightarrow> component \<Rightarrow> component" where
  "writeValue v c = set_data v c"

definition registerOnChange :: "component \<Rightarrow> component" where
  "registerOnChange c = c\<lparr> onChange := True \<rparr>"

definition registerOnTouched :: "component \<Rightarrow> component" where
  "registerOnTouched c = c\<lparr> onTouched := True \<rparr>"

text \<open>
  \<^verbatim>\<open>propagateChange(event)\<close>; the argument is \<^verbatim>\<open>event.name\<close>. With no instance,
  \<^verbatim>\<open>this.instance.getData()\<close> throws.
\<close>

definition propagateChange :: "string \<Rightarrow> component \<Rightarrow> error + component" where
  "propagateChange name c =
     (case inst c of
        None \<Rightarrow> Inl TypeError
      | Some e \<Rightarrow>
          (let newData = editor_getData e;
               c0 = on_instance GetData id c;
               c1 = (if name = ''change'' then emit Change c0
                     else if name = ''dataReady'' then emit DataReady c0
                     else c0)
           in if Some newData = get_data c1 then Inr c1
              else
                (let c2 = c1\<lparr> priv_data := Some newData \<rparr>;
                     c3 = emit (DataChange newData) c2
                 in Inr (if onChange c3 then record_action (OnChange newData) c3 else c3))))"

text \<open>\<^verbatim>\<open>subscribe(editor)\<close>: the registrations, in the order of the source.\<close>

definition subscribe :: "editor \<Rightarrow> editor" where
  "subscribe ed =
     (let e1 = editor_on ''focus'' (Forward Focus) ed;
          e2 = editor_on ''paste'' (Forward Paste) e1;
          e3 = editor_on ''afterPaste'' (Forward AfterPaste) e2;
          e4 = editor_on ''dragend'' (Forward DragEnd) e3;
          e5 = editor_on ''dragstart'' (Forward DragStart) e4;
          e6 = editor_on ''drop'' (Forward Drop) e5;
          e7 = editor_on ''fileUploadRequest'' (Forward FileUploadRequest) e6;
          e8 = editor_on ''fileUploadResponse'' (Forward FileUploadResponse) e7;
          e9 = editor_on ''blur'' BlurHandler e8;
          e10 = editor_on ''dataReady'' PropagateChange e9
      in if undoManager e10 then editor_on ''change'' PropagateChange e10
         else editor_on ''selectionCheck'' PropagateChange e10)"

text \<open>
  What a registered listener does when the editor raises the event it is bound to. The
  listeners bound to a name run in the order of their registration, and a listener that
  throws ends the dispatch. \<open>native_event\<close> is the library raising an event on an editor;
  \<open>fire\<close> is the wrapper's own call of \<^verbatim>\<open>editor.fire(name)\<close>.
\<close>

fun run_handler :: "handler \<Rightarrow> string \<Rightarrow> component \<Rightarrow> error + component" where
  "run_handler (Forward out) name c = Inr (emit out c)"
| "run_handler BlurHandler name c =
     Inr (emit Blur (if onTouched c then record_action OnTouched c else c))"
| "run_handler PropagateChange name c = propagateChange name c"

fun dispatch :: "(string \<times> handler) list \<Rightarrow> string \<Rightarrow> component \<Rightarrow> error + component" where
  "dispatch [] name c = Inr c"
| "dispatch ((n, h) # ls) name c =
     (if n = name
      then (case run_handler h name c of
              Inl err \<Rightarrow> Inl err
            | Inr c' \<Rightarrow> dispatch ls name c')
      else dispatch ls name c)"

definition native_event :: "editor \<Rightarrow> string \<Rightarrow> component \<Rightarrow> error + component" where
  "native_event editor name c = dispatch (listeners editor) name c"

definition fire :: "editor \<Rightarrow> string \<Rightarrow> component \<Rightarrow> error + component" where
  "fire editor name c = native_event editor name (record_action (Call (Fire name)) c)"

text \<open>
  The block both branches of the ready handler end with: the user's own
  \<^verbatim>\<open>instanceReady\<close> callback, when the configuration held one, then the \<^verbatim>\<open>ready\<close> output.
\<close>

definition emit_ready :: "bool \<Rightarrow> component \<Rightarrow> component" where
  "emit_ready userInstanceReadyCallback c =
     emit Ready (if userInstanceReadyCallback then record_action UserInstanceReady c else c)"

text \<open>
  The completion callback handed to \<^verbatim>\<open>editor.setData\<close> by the ready handler. \<open>editor\<close>
  and \<open>undo\<close> are the variables of the enclosing handler: the editor it was called with,
  as it is when the callback runs, and whether that editor has an undo manager. The
  callback compares the editor's content with \<^verbatim>\<open>this.data\<close>, the cache.
\<close>

definition setData_callback :: "bool \<Rightarrow> bool \<Rightarrow> editor \<Rightarrow> component \<Rightarrow> error + component" where
  "setData_callback userInstanceReadyCallback undo editor c =
     (let c1 = record_action (Call GetData) c;
          fired = (if get_data c1 \<noteq> Some (editor_getData editor)
                   then (if undo then fire editor ''change'' c1 else fire editor ''dataReady'' c1)
                   else Inr c1)
      in case fired of
           Inl err \<Rightarrow> Inl err
         | Inr c2 \<Rightarrow>
             Inr (emit_ready userInstanceReadyCallback
                    (if undo then record_action (Call UndoUnlock) c2 else c2)))"

text \<open>
  \<^verbatim>\<open>config.on.instanceReady\<close>, the handler the library calls with the editor it has
  built. \<open>userInstanceReadyCallback\<close> is the variable of that name, captured by
  \<^verbatim>\<open>createEditor\<close>. The handler does not look at \<^verbatim>\<open>_destroyed\<close>. \<open>loaded\<close> is the editor
  of the handler after its \<^verbatim>\<open>setReadOnly\<close>, \<^verbatim>\<open>on\<close> and \<^verbatim>\<open>setData\<close> calls, the same value
  that \<open>inst\<close> holds then. The library's \<^verbatim>\<open>setData\<close> raises \<^verbatim>\<open>dataReady\<close> when the data is
  loaded (the component's note on its \<^verbatim>\<open>dataReady\<close> output says so) and runs the completion
  callback on that event, after the listeners registered before: so the listeners of
  \<^verbatim>\<open>dataReady\<close> run first, among them \<^verbatim>\<open>propagateChange\<close>, and then the callback.
\<close>

definition instanceReady :: "bool \<Rightarrow> editor \<Rightarrow> component \<Rightarrow> error + component" where
  "instanceReady userInstanceReadyCallback editor c =
     (let c1 = c\<lparr> inst := Some editor \<rparr>;
          isReadOnly = (case priv_readOnly c1 of
                          Some b \<Rightarrow> b
                        | None \<Rightarrow> readOnly editor);
          c2 = set_readOnly isReadOnly c1;
          c3 = c2\<lparr> inst := map_option subscribe (inst c2) \<rparr>;
          undo = undoManager editor
      in case get_data c3 of
           Some d \<Rightarrow>
             (let c4 = (if undo then on_instance UndoLock id c3 else c3);
                  c5 = on_instance (SetData (Some d)) (editor_setData (Some d)) c4;
                  loaded = editor_setData (Some d)
                             (subscribe (editor_setReadOnly isReadOnly editor))
              in case native_event loaded ''dataReady'' c5 of
                   Inl err \<Rightarrow> Inl err
                 | Inr c6 \<Rightarrow> setData_callback userInstanceReadyCallback undo loaded c6)
         | None \<Rightarrow> Inr (emit_ready userInstanceReadyCallback c3))"

text \<open>
  \<^verbatim>\<open>createEditor\<close> makes the host element, appends it, and calls \<^verbatim>\<open>CKEDITOR.inline\<close> or
  \<^verbatim>\<open>CKEDITOR.replace\<close> with the configuration that carries the ready handler. The library
  builds the editor and calls the handler later. Two of the steps can throw, and the
  answer is the platform's, not the component's: \<^verbatim>\<open>document.createElement\<close> refuses a tag
  name that is not a valid element name, and the library's constructor refuses some
  elements. \<open>element_ok\<close> and \<open>construct_ok\<close> say what they accept. The result is the error
  thrown, if any, with the component as the steps before the throw left it.
\<close>

record platform =
  element_ok :: "string \<Rightarrow> bool"
  construct_ok :: "editorType \<Rightarrow> string \<Rightarrow> bool"

definition createEditor :: "platform \<Rightarrow> component \<Rightarrow> error option \<times> component" where
  "createEditor p c =
     (if \<not> element_ok p (tagName c) then (Some InvalidCharacterError, c)
      else
        (let c1 = record_action (CreateElement (tagName c)) c;
             t = (if ed_type c = INLINE then INLINE else CLASSIC)
         in if \<not> construct_ok p t (tagName c) then (Some ConstructionError, c1)
            else (None, record_action (Construct t) c1)))"

text \<open>
  \<^verbatim>\<open>ngAfterViewInit\<close> hands \<^verbatim>\<open>getEditorNamespace\<close> (a function of the package
  ckeditor4-integrations-common) a callback that emits \<^verbatim>\<open>namespaceLoaded\<close>, and chains a
  continuation and \<^verbatim>\<open>console.error\<close> to the promise it returns. The call itself leaves
  the component as it is; the three functions run when the loader settles. What the loader
  does is the outcome: it resolves, having called the callback or not, or it rejects.
  \<open>ngAfterViewInit p outcome c\<close> is the effect on the component \<open>c\<close> as it is at that
  moment. An error thrown in the continuation goes to \<^verbatim>\<open>console.error\<close> as a rejection does.
\<close>

datatype namespace_outcome = Loaded bool | Failed

definition onNamespaceLoaded :: "component \<Rightarrow> component" where
  "onNamespaceLoaded c = emit NamespaceLoaded c"

definition namespace_then :: "platform \<Rightarrow> component \<Rightarrow> error option \<times> component" where
  "namespace_then p c = (if priv_destroyed c then (None, c) else createEditor p c)"

fun ngAfterViewInit :: "platform \<Rightarrow> namespace_outcome \<Rightarrow> component \<Rightarrow> component" where
  "ngAfterViewInit p (Loaded called_back) c =
     (case namespace_then p (if called_back then onNamespaceLoaded c else c) of
        (None, c') \<Rightarrow> c'
      | (Some err, c') \<Rightarrow> record_action ConsoleError c')"
| "ngAfterViewInit p Failed c = record_action ConsoleError c"

definition ngOnDestroy :: "component \<Rightarrow> component" where
  "ngOnDestroy c =
     (let c1 = c\<lparr> priv_destroyed := True \<rparr>
      in case inst c1 of
           Some e \<Rightarrow> (on_instance Destroy id c1)\<lparr> inst := None \<rparr>
         | None \<Rightarrow> c1)"

text \<open>The actions a step added to the log.\<close>

definition added :: "component \<Rightarrow> component \<Rightarrow> action list" where
  "added c c' = drop (length (log c)) (log c')"

section \<open>Instances and runs used in the examples\<close>

text \<open>
  Two instances: one serializes text written into it as a paragraph, as the editor does
  with plain text; the other hands back what was written. \<open>start e\<close> is a run of the
  sequenced helper on \<open>e\<close> at time 0.
\<close>

definition paragraph_editor :: editor where
  "paragraph_editor =
     \<lparr> content = [], readOnly = False, undoManager = True, isInline = True, listeners = [],
       acf = (\<lambda>d. case d of None \<Rightarrow> [] | Some s \<Rightarrow> ''<p>'' @ s @ ''</p>'') \<rparr>"

definition verbatim_editor :: "bool \<Rightarrow> editor" where
  "verbatim_editor inline =
     \<lparr> content = ''<p>A</p>'', readOnly = False, undoManager = True, isInline = inline,
       listeners = [], acf = (\<lambda>d. case d of None \<Rightarrow> [] | Some s \<Rightarrow> s) \<rparr>"

definition start :: "editor \<Rightarrow> run" where
  "start e = \<lparr> sut = e, now = 0, pushes = [], resolved = None \<rparr>"

text \<open>
  The entries one run of \<^verbatim>\<open>propagateChange\<close> is to add to the log, for an event name, the
  component before the run and the content read from the instance.
\<close>

definition propagated :: "string \<Rightarrow> component \<Rightarrow> string \<Rightarrow> action list" where
  "propagated name c newData =
     [Call GetData] @
     (if name = ''change'' then [Emit Change]
      else if name = ''dataReady'' then [Emit DataReady] else []) @
     (if Some newData = priv_data c then []
      else Emit (DataChange newData) # (if onChange c then [OnChange newData] else []))"

text \<open>A component that holds the paragraph instance and has nothing cached.\<close>

definition example_component :: component where
  "example_component = new_component\<lparr> inst := Some paragraph_editor \<rparr>"

text \<open>The arguments of the \<^verbatim>\<open>setReadOnly\<close> calls in a stretch of the log, in order.\<close>

definition setReadOnly_calls :: "action list \<Rightarrow> bool list" where
  "setReadOnly_calls as =
     concat (map (\<lambda>a. case a of Call (SetReadOnly b) \<Rightarrow> [b] | _ \<Rightarrow> []) as)"

text \<open>
  A browser that refuses an empty tag name and one with a space in it, with a library
  that accepts every element.
\<close>

definition spaceless_platform :: platform where
  "spaceless_platform =
     \<lparr> element_ok = (\<lambda>n. n \<noteq> [] \<and> CHR '' '' \<notin> set n), construct_ok = (\<lambda>t n. True) \<rparr>"

text \<open>
  A component that holds the paragraph instance with its listeners registered, and has
  \<^verbatim>\<open>'x'\<close> cached while the instance is empty.
\<close>

definition stale_component :: component where
  "stale_component =
     new_component\<lparr> inst := Some (subscribe paragraph_editor), priv_data := Some ''x'' \<rparr>"

text \<open>
  A fresh component whose change callback is registered and to which \<^verbatim>\<open>'hello'\<close> was
  written before any instance exists.
\<close>

definition written_component :: component where
  "written_component = registerOnChange (set_data (Some ''hello'') new_component)"

section \<open>Facts about the list primitives\<close>

lemma indexOf_lower: "- 1 \<le> indexOf xs v"
  by (induction xs) (auto simp: Let_def)

lemma indexOf_absent: "indexOf xs v = - 1 \<longleftrightarrow> v \<notin> set xs"
proof (induction xs)
  case Nil
  then show ?case by simp
next
  case (Cons x xs)
  have "- 1 \<le> indexOf xs v" by (rule indexOf_lower)
  then have "indexOf xs v + 1 \<noteq> - 1" by arith
  with Cons show ?case by (simp add: Let_def)
qed

lemma indexOf_nonneg: "v \<in> set xs \<Longrightarrow> 0 \<le> indexOf xs v"
  using indexOf_lower [of xs v] indexOf_absent [of xs v] by arith

lemma splice_indexOf:
  "v \<in> set xs \<Longrightarrow> array_splice (nat (indexOf xs v)) (Suc 0) xs = remove1 v xs"
proof (induction xs)
  case Nil
  then show ?case by simp
next
  case (Cons x xs)
  show ?case
  proof (cases "x = v")
    case True
    then show ?thesis by (simp add: array_splice_def)
  next
    case False
    with Cons.prems have mem: "v \<in> set xs" by simp
    then have nn: "0 \<le> indexOf xs v" by (rule indexOf_nonneg)
    from mem have ne: "indexOf xs v \<noteq> - 1" by (simp add: indexOf_absent)
    have "nat (indexOf xs v + 1) = Suc (nat (indexOf xs v))"
      using nn by simp
    with False ne Cons.IH [OF mem] show ?thesis
      by (simp add: array_splice_def Let_def)
  qed
qed

lemma types_clearData: "types (clearData type t) = remove1 type (types t)"
proof (cases "type \<in> set (types t)")
  case True
  then have "indexOf (types t) type \<noteq> - 1" by (simp add: indexOf_absent)
  with True splice_indexOf [of type "types t"] show ?thesis
    by (simp add: clearData_def Let_def)
next
  case False
  then have "indexOf (types t) type = - 1" by (simp add: indexOf_absent)
  with False show ?thesis by (simp add: clearData_def Let_def remove1_idem)
qed

lemma data_clearData:
  "mock_data (clearData type t) =
     (if type \<in> set (types t) then (mock_data t)(type := None) else mock_data t)"
  by (simp add: clearData_def Let_def indexOf_absent)

lemma types_setData: "types (setData type v t) = types t @ [type]"
  by (simp add: setData_def Let_def)

lemma types_setData_all: "types (setData_all calls t) = types t @ map fst calls"
  by (induction calls t rule: setData_all.induct) (simp_all add: types_setData)

lemma data_setData:
  "mock_data (setData type v t) =
     (if type = ''text/plain'' \<or> type = ''Text''
      then ((mock_data t)(''text/plain'' \<mapsto> v))(''Text'' \<mapsto> v)
      else if type = ''__proto__'' then mock_data t
      else (mock_data t)(type \<mapsto> v))"
  by (simp add: setData_def Let_def)

section \<open>Facts about the sequenced helper\<close>

lemma push_fields:
  "sut (push c r) = editor_setData (Some c) (sut r)"
  "now (push c r) = now r"
  "pushes (push c r) = pushes r @ [(now r, c)]"
  "resolved (push c r) = resolved r"
  by (simp_all add: push_def)

lemma setTimeout_fields:
  "sut (setTimeout d r) = sut r"
  "now (setTimeout d r) = now r + d"
  "pushes (setTimeout d r) = pushes r"
  "resolved (setTimeout d r) = resolved r"
  by (simp_all add: setTimeout_def)

lemma res_fields:
  "sut (res r) = sut r"
  "now (res r) = now r"
  "pushes (res r) = pushes r"
  "resolved (res r) = Some (now r)"
  by (simp_all add: res_def)

lemma editor_setData_fields:
  "content (editor_setData d e) = acf e d"
  "acf (editor_setData d e) = acf e"
  "isInline (editor_setData d e) = isInline e"
  "undoManager (editor_setData d e) = undoManager e"
  "readOnly (editor_setData d e) = readOnly e"
  "listeners (editor_setData d e) = listeners e"
  by (simp_all add: editor_setData_def)

lemma fold_push_now: "now (fold push xs r) = now r"
  by (induction xs arbitrary: r) (simp_all add: push_fields)

lemma fold_push_resolved: "resolved (fold push xs r) = resolved r"
  by (induction xs arbitrary: r) (simp_all add: push_fields)

lemma fold_push_pushes: "pushes (fold push xs r) = pushes r @ map (\<lambda>c. (now r, c)) xs"
  by (induction xs arbitrary: r) (simp_all add: push_fields)

lemma fold_push_acf: "acf (sut (fold push xs r)) = acf (sut r)"
  by (induction xs arbitrary: r) (simp_all add: push_fields editor_setData_fields)

lemma fold_push_content:
  "content (sut (fold push xs r)) =
     (if xs = [] then content (sut r) else acf (sut r) (Some (last xs)))"
proof (induction xs arbitrary: r)
  case Nil
  show ?case by simp
next
  case (Cons x xs)
  show ?case
    by (simp add: Cons.IH push_fields editor_setData_fields)
qed

lemma setDataHelper_array: "fst (setDataHelper xs r) = []"
  by (induction xs r rule: setDataHelper.induct) simp_all

lemma setDataHelper_now: "now (snd (setDataHelper xs r)) = now r + 100 * Suc (length xs)"
  by (induction xs r rule: setDataHelper.induct)
     (simp_all add: push_fields setTimeout_fields res_fields)

lemma setDataHelper_resolved:
  "resolved (snd (setDataHelper xs r)) = Some (now r + 100 * Suc (length xs))"
  by (induction xs r rule: setDataHelper.induct)
     (simp_all add: push_fields setTimeout_fields res_fields)

lemma stamps_shift:
  "map (\<lambda>(i, c). (t + 100 + 100 * i, c)) (enumerate n xs) =
   map (\<lambda>(i, c). (t + 100 * i, c)) (enumerate (Suc n) xs)"
  by (induction xs arbitrary: n) simp_all

lemma stamps_contents: "map (snd \<circ> (\<lambda>(i, c). (f i, c))) (enumerate n xs) = xs"
  by (induction xs arbitrary: n) simp_all

lemma setDataHelper_pushes:
  "pushes (snd (setDataHelper xs r)) =
     pushes r @ map (\<lambda>(i, c). (now r + 100 * i, c)) (enumerate 1 xs)"
proof (induction xs r rule: setDataHelper.induct)
  case (1 r)
  show ?case by (simp add: setTimeout_fields res_fields)
next
  case (2 c rest r)
  have "pushes (snd (setDataHelper (c # rest) r)) =
        (pushes r @ [(now r + 100, c)]) @
          map (\<lambda>(i, x). (now r + 100 + 100 * i, x)) (enumerate 1 rest)"
    using "2.IH" by (simp add: push_fields setTimeout_fields)
  also have "\<dots> = pushes r @ (now r + 100, c) #
          map (\<lambda>(i, x). (now r + 100 * i, x)) (enumerate (Suc 1) rest)"
    by (simp only: stamps_shift append_assoc append_Cons append_Nil)
  also have "\<dots> = pushes r @ map (\<lambda>(i, x). (now r + 100 * i, x)) (enumerate 1 (c # rest))"
    by simp
  finally show ?case .
qed

lemma setDataHelper_acf: "acf (sut (snd (setDataHelper xs r))) = acf (sut r)"
  by (induction xs r rule: setDataHelper.induct)
     (simp_all add: push_fields setTimeout_fields res_fields editor_setData_fields)

lemma setDataHelper_content:
  "content (sut (snd (setDataHelper xs r))) =
     (if xs = [] then content (sut r) else acf (sut r) (Some (last xs)))"
proof (induction xs r rule: setDataHelper.induct)
  case (1 r)
  show ?case by (simp add: setTimeout_fields res_fields)
next
  case (2 c rest r)
  then show ?case
    by (simp add: push_fields setTimeout_fields editor_setData_fields)
qed

section \<open>Facts about the component\<close>

lemma record_action_fields:
  "log (record_action a c) = log c @ [a]"
  "inst (record_action a c) = inst c"
  "priv_data (record_action a c) = priv_data c"
  "priv_readOnly (record_action a c) = priv_readOnly c"
  "priv_destroyed (record_action a c) = priv_destroyed c"
  "onChange (record_action a c) = onChange c"
  "onTouched (record_action a c) = onTouched c"
  by (simp_all add: record_action_def)

lemma on_instance_fields:
  "log (on_instance k f c) = log c @ [Call k]"
  "inst (on_instance k f c) = map_option f (inst c)"
  "priv_data (on_instance k f c) = priv_data c"
  "priv_readOnly (on_instance k f c) = priv_readOnly c"
  "priv_destroyed (on_instance k f c) = priv_destroyed c"
  "onChange (on_instance k f c) = onChange c"
  "onTouched (on_instance k f c) = onTouched c"
  by (simp_all add: on_instance_def record_action_fields)

lemma added_append: "log c' = log c @ xs \<Longrightarrow> added c c' = xs"
  by (simp add: added_def)

lemma propagateChange_Inr:
  assumes "inst c = Some e"
  shows "\<exists>c'. propagateChange name c = Inr c' \<and>
           log c' = log c @ propagated name c (content e) \<and>
           inst c' = Some e \<and> priv_data c' = Some (content e) \<and>
           priv_readOnly c' = priv_readOnly c \<and> priv_destroyed c' = priv_destroyed c \<and>
           onChange c' = onChange c \<and> onTouched c' = onTouched c"
  using assms
  by (simp add: propagateChange_def propagated_def Let_def emit_def get_data_def
      editor_getData_def record_action_fields on_instance_fields option.map_id0)

lemma set_data_same: "d = priv_data c \<Longrightarrow> set_data d c = c"
  by (simp add: set_data_def)

lemma set_data_no_instance:
  "d \<noteq> priv_data c \<Longrightarrow> inst c = None \<Longrightarrow> set_data d c = c\<lparr> priv_data := d \<rparr>"
  by (simp add: set_data_def)

lemma set_data_instance:
  assumes "d \<noteq> priv_data c" and "inst c = Some e"
  shows "log (set_data d c) = log c @ [Call (SetData d), Call GetData]"
    and "inst (set_data d c) = Some (editor_setData d e)"
    and "priv_data (set_data d c) = Some (acf e d)"
  using assms
  by (simp_all add: set_data_def Let_def on_instance_fields editor_getData_def
      editor_setData_fields)

lemma example_component_fields:
  "inst example_component = Some paragraph_editor"
  "priv_data example_component = None"
  by (simp_all add: example_component_def new_component_def)

lemma acf_paragraph_hello: "acf paragraph_editor (Some ''hello'') = ''<p>hello</p>''"
  by (simp add: paragraph_editor_def)

lemma listeners_subscribe:
  "listeners (subscribe ed) = listeners ed @
     [(''focus'', Forward Focus), (''paste'', Forward Paste),
      (''afterPaste'', Forward AfterPaste), (''dragend'', Forward DragEnd),
      (''dragstart'', Forward DragStart), (''drop'', Forward Drop),
      (''fileUploadRequest'', Forward FileUploadRequest),
      (''fileUploadResponse'', Forward FileUploadResponse),
      (''blur'', BlurHandler), (''dataReady'', PropagateChange),
      (if undoManager ed then ''change'' else ''selectionCheck'', PropagateChange)]"
  by (simp add: subscribe_def editor_on_def Let_def)

lemma ngOnDestroy_fields:
  "priv_destroyed (ngOnDestroy c)"
  "inst (ngOnDestroy c) = None"
  "log (ngOnDestroy c) = log c @ (case inst c of None \<Rightarrow> [] | Some e \<Rightarrow> [Call Destroy])"
  "priv_data (ngOnDestroy c) = priv_data c"
  "priv_readOnly (ngOnDestroy c) = priv_readOnly c"
  by (simp_all add: ngOnDestroy_def Let_def on_instance_fields split: option.split)

lemma setReadOnly_calls_simps:
  "setReadOnly_calls [] = []"
  "setReadOnly_calls (xs @ ys) = setReadOnly_calls xs @ setReadOnly_calls ys"
  "setReadOnly_calls (Call (SetReadOnly b) # xs) = b # setReadOnly_calls xs"
  "setReadOnly_calls (Call (SetData d) # xs) = setReadOnly_calls xs"
  "setReadOnly_calls (Call GetData # xs) = setReadOnly_calls xs"
  "setReadOnly_calls (Call (Fire n) # xs) = setReadOnly_calls xs"
  "setReadOnly_calls (Call UndoLock # xs) = setReadOnly_calls xs"
  "setReadOnly_calls (Call UndoUnlock # xs) = setReadOnly_calls xs"
  "setReadOnly_calls (Emit out # xs) = setReadOnly_calls xs"
  "setReadOnly_calls (OnChange s # xs) = setReadOnly_calls xs"
  "setReadOnly_calls (OnTouched # xs) = setReadOnly_calls xs"
  "setReadOnly_calls (UserInstanceReady # xs) = setReadOnly_calls xs"
  by (simp_all add: setReadOnly_calls_def)

lemma setReadOnly_calls_propagated: "setReadOnly_calls (propagated name c s) = []"
  by (simp add: propagated_def setReadOnly_calls_simps)

lemma propagated_cong:
  "priv_data c' = priv_data c \<Longrightarrow> onChange c' = onChange c \<Longrightarrow>
     propagated name c' s = propagated name c s"
  by (simp add: propagated_def)

lemma editor_setReadOnly_fields:
  "content (editor_setReadOnly b e) = content e"
  "acf (editor_setReadOnly b e) = acf e"
  "undoManager (editor_setReadOnly b e) = undoManager e"
  "readOnly (editor_setReadOnly b e) = b"
  "listeners (editor_setReadOnly b e) = listeners e"
  by (simp_all add: editor_setReadOnly_def)

lemma subscribe_fields:
  "content (subscribe e) = content e"
  "acf (subscribe e) = acf e"
  "undoManager (subscribe e) = undoManager e"
  "readOnly (subscribe e) = readOnly e"
  by (simp_all add: subscribe_def editor_on_def Let_def)

lemma emit_ready_fields:
  "log (emit_ready cb c) = log c @ (if cb then [UserInstanceReady] else []) @ [Emit Ready]"
  "inst (emit_ready cb c) = inst c"
  "priv_data (emit_ready cb c) = priv_data c"
  "priv_readOnly (emit_ready cb c) = priv_readOnly c"
  by (simp_all add: emit_ready_def emit_def record_action_fields)

lemma no_fire_propagated: "Call (Fire n) \<notin> set (propagated name c s)"
  by (simp add: propagated_def)

lemma run_handler_Inr:
  assumes "inst c = Some e"
  shows "\<exists>c' xs. run_handler h name c = Inr c' \<and> log c' = log c @ xs \<and>
           setReadOnly_calls xs = [] \<and> (\<forall>n. Call (Fire n) \<notin> set xs) \<and>
           inst c' = Some e \<and> priv_readOnly c' = priv_readOnly c \<and>
           (h = PropagateChange \<or> priv_data c = Some (content e)
              \<longrightarrow> priv_data c' = Some (content e))"
proof (cases h)
  case (Forward out)
  with assms show ?thesis
    by (simp add: emit_def record_action_fields setReadOnly_calls_simps)
next
  case BlurHandler
  with assms show ?thesis
    by (simp add: emit_def record_action_fields setReadOnly_calls_simps)
next
  case PropagateChange
  obtain c' where
    "propagateChange name c = Inr c'"
    "log c' = log c @ propagated name c (content e)"
    "inst c' = Some e" "priv_data c' = Some (content e)"
    "priv_readOnly c' = priv_readOnly c"
    using propagateChange_Inr [OF assms, of name] by (elim exE conjE)
  with PropagateChange show ?thesis
    by (simp add: setReadOnly_calls_propagated no_fire_propagated)
qed

lemma dispatch_Inr:
  assumes "inst c = Some e"
  shows "\<exists>c' xs. dispatch ls name c = Inr c' \<and> log c' = log c @ xs \<and>
           setReadOnly_calls xs = [] \<and> (\<forall>n. Call (Fire n) \<notin> set xs) \<and>
           inst c' = Some e \<and> priv_readOnly c' = priv_readOnly c \<and>
           ((name, PropagateChange) \<in> set ls \<or> priv_data c = Some (content e)
              \<longrightarrow> priv_data c' = Some (content e))"
  using assms
proof (induction ls arbitrary: c)
  case Nil
  then show ?case by (simp add: setReadOnly_calls_simps)
next
  case (Cons p ls)
  obtain n h where p: "p = (n, h)" by (cases p)
  show ?case
  proof (cases "n = name")
    case False
    from Cons.IH [OF Cons.prems] False p show ?thesis by simp
  next
    case True
    obtain c1 xs where
      r: "run_handler h name c = Inr c1" and l1: "log c1 = log c @ xs" and
      s1: "setReadOnly_calls xs = []" and f1: "\<forall>n. Call (Fire n) \<notin> set xs" and
      i1: "inst c1 = Some e" and
      ro1: "priv_readOnly c1 = priv_readOnly c" and
      d1: "h = PropagateChange \<or> priv_data c = Some (content e)
             \<longrightarrow> priv_data c1 = Some (content e)"
      using run_handler_Inr [OF Cons.prems, of h name] by (elim exE conjE)
    obtain c2 ys where
      r2: "dispatch ls name c1 = Inr c2" and l2: "log c2 = log c1 @ ys" and
      s2: "setReadOnly_calls ys = []" and f2: "\<forall>n. Call (Fire n) \<notin> set ys" and
      i2: "inst c2 = Some e" and
      ro2: "priv_readOnly c2 = priv_readOnly c1" and
      d2: "(name, PropagateChange) \<in> set ls \<or> priv_data c1 = Some (content e)
             \<longrightarrow> priv_data c2 = Some (content e)"
      using Cons.IH [OF i1] by (elim exE conjE)
    have a: "dispatch (p # ls) name c = Inr c2"
      using p True r r2 by simp
    have b: "log c2 = log c @ (xs @ ys)"
      using l1 l2 by simp
    have s: "setReadOnly_calls (xs @ ys) = []"
      using s1 s2 by (simp add: setReadOnly_calls_simps)
    have f: "\<forall>n. Call (Fire n) \<notin> set (xs @ ys)"
      using f1 f2 by simp
    have ro: "priv_readOnly c2 = priv_readOnly c"
      using ro1 ro2 by simp
    have d: "(name, PropagateChange) \<in> set (p # ls) \<or> priv_data c = Some (content e)
             \<longrightarrow> priv_data c2 = Some (content e)"
      using p True d1 d2 by auto
    from a b s f i2 ro d show ?thesis by blast
  qed
qed

lemma dispatch_filter:
  "dispatch ls name c = dispatch (filter (\<lambda>p. fst p = name) ls) name c"
proof (induction ls arbitrary: c)
  case Nil
  show ?case by simp
next
  case (Cons p ls)
  obtain n h where p: "p = (n, h)" by (cases p)
  show ?case
    using Cons.IH p by (cases "run_handler h name c") simp_all
qed

lemma dispatch_single:
  assumes "filter (\<lambda>p. fst p = name) ls = [(name, PropagateChange)]"
  shows "dispatch ls name c = propagateChange name c"
proof -
  have "dispatch ls name c = dispatch [(name, PropagateChange)] name c"
    using dispatch_filter [of ls name c] assms by simp
  also have "\<dots> = propagateChange name c"
    by (cases "propagateChange name c") simp_all
  finally show ?thesis .
qed

lemma native_event_Inr:
  assumes "inst c = Some e"
  shows "\<exists>c' xs. native_event ed name c = Inr c' \<and> log c' = log c @ xs \<and>
           setReadOnly_calls xs = [] \<and> (\<forall>n. Call (Fire n) \<notin> set xs) \<and>
           inst c' = Some e \<and> priv_readOnly c' = priv_readOnly c \<and>
           ((name, PropagateChange) \<in> set (listeners ed) \<or> priv_data c = Some (content e)
              \<longrightarrow> priv_data c' = Some (content e)) \<and>
           (filter (\<lambda>p. fst p = name) (listeners ed) = [(name, PropagateChange)]
              \<longrightarrow> xs = propagated name c (content e))"
proof -
  obtain c' xs where
    r: "dispatch (listeners ed) name c = Inr c'" and l: "log c' = log c @ xs" and
    s: "setReadOnly_calls xs = []" and f: "\<forall>n. Call (Fire n) \<notin> set xs" and
    i: "inst c' = Some e" and
    ro: "priv_readOnly c' = priv_readOnly c" and
    d: "(name, PropagateChange) \<in> set (listeners ed) \<or> priv_data c = Some (content e)
          \<longrightarrow> priv_data c' = Some (content e)"
    using dispatch_Inr [OF assms, of "listeners ed" name] by (elim exE conjE)
  have x: "filter (\<lambda>p. fst p = name) (listeners ed) = [(name, PropagateChange)]
              \<longrightarrow> xs = propagated name c (content e)"
  proof
    assume "filter (\<lambda>p. fst p = name) (listeners ed) = [(name, PropagateChange)]"
    then have "dispatch (listeners ed) name c = propagateChange name c"
      by (rule dispatch_single)
    with r have pc: "propagateChange name c = Inr c'" by simp
    obtain c'' where pc': "propagateChange name c = Inr c''"
      and l': "log c'' = log c @ propagated name c (content e)"
      using propagateChange_Inr [OF assms, of name] by (elim exE conjE)
    from pc pc' have "c'' = c'" by simp
    with l l' show "xs = propagated name c (content e)" by simp
  qed
  have a: "native_event ed name c = Inr c'"
    using r by (simp add: native_event_def)
  from a l s f i ro d x show ?thesis by blast
qed

lemma fire_Inr:
  assumes "inst c = Some e"
  shows "\<exists>c' xs. fire ed name c = Inr c' \<and> log c' = log c @ Call (Fire name) # xs \<and>
           setReadOnly_calls xs = [] \<and> (\<forall>n. Call (Fire n) \<notin> set xs) \<and>
           inst c' = Some e \<and> priv_readOnly c' = priv_readOnly c \<and>
           ((name, PropagateChange) \<in> set (listeners ed) \<or> priv_data c = Some (content e)
              \<longrightarrow> priv_data c' = Some (content e))"
proof -
  define c0 where "c0 = record_action (Call (Fire name)) c"
  have i0: "inst c0 = Some e"
    using assms by (simp add: c0_def record_action_fields)
  have l0: "log c0 = log c @ [Call (Fire name)]"
    by (simp add: c0_def record_action_fields)
  have d0: "priv_data c0 = priv_data c"
    by (simp add: c0_def record_action_fields)
  have r0: "priv_readOnly c0 = priv_readOnly c"
    by (simp add: c0_def record_action_fields)
  obtain c' xs where
    r: "native_event ed name c0 = Inr c'" and l: "log c' = log c0 @ xs" and
    s: "setReadOnly_calls xs = []" and f: "\<forall>n. Call (Fire n) \<notin> set xs" and
    i: "inst c' = Some e" and
    ro: "priv_readOnly c' = priv_readOnly c0" and
    d: "(name, PropagateChange) \<in> set (listeners ed) \<or> priv_data c0 = Some (content e)
          \<longrightarrow> priv_data c' = Some (content e)"
    using native_event_Inr [OF i0, of ed name] by (elim exE conjE)
  have a: "fire ed name c = Inr c'" using r by (simp add: fire_def c0_def)
  have b: "log c' = log c @ Call (Fire name) # xs"
    using l l0 by simp
  have ro': "priv_readOnly c' = priv_readOnly c" using ro r0 by simp
  have d': "(name, PropagateChange) \<in> set (listeners ed) \<or> priv_data c = Some (content e)
              \<longrightarrow> priv_data c' = Some (content e)"
    using d d0 by simp
  from a b s f i ro' d' show ?thesis by blast
qed

lemma setData_callback_same:
  assumes "priv_data c = Some (editor_getData ed)"
  shows "setData_callback cb undo ed c =
           Inr (emit_ready cb (if undo then record_action (Call UndoUnlock)
                                              (record_action (Call GetData) c)
                               else record_action (Call GetData) c))"
  using assms
  by (simp add: setData_callback_def Let_def get_data_def record_action_fields)

lemma setData_callback_Inr:
  assumes i: "inst c = Some ed"
    and nm: "nm = (if undo then ''change'' else ''dataReady'')"
    and b: "(nm, PropagateChange) \<in> set (listeners ed)"
  shows "\<exists>c' xs. setData_callback cb undo ed c = Inr c' \<and>
           log c' = log c @ Call GetData #
             (if priv_data c \<noteq> Some (editor_getData ed) then Call (Fire nm) # xs else []) @
             (if undo then [Call UndoUnlock] else []) @
             (if cb then [UserInstanceReady] else []) @ [Emit Ready] \<and>
           (\<forall>n. Call (Fire n) \<notin> set xs) \<and>
           priv_data c' = Some (editor_getData ed)"
proof (cases "priv_data c = Some (editor_getData ed)")
  case True
  define c' where "c' = emit_ready cb (if undo then record_action (Call UndoUnlock)
                                              (record_action (Call GetData) c)
                               else record_action (Call GetData) c)"
  have 1: "setData_callback cb undo ed c = Inr c'"
    unfolding c'_def using True by (rule setData_callback_same)
  have 2: "log c' = log c @ Call GetData #
             (if priv_data c \<noteq> Some (editor_getData ed) then Call (Fire nm) # [] else []) @
             (if undo then [Call UndoUnlock] else []) @
             (if cb then [UserInstanceReady] else []) @ [Emit Ready]"
    using True by (simp add: c'_def emit_ready_fields record_action_fields)
  have 3: "\<forall>n. Call (Fire n) \<notin> set []" by simp
  have 4: "priv_data c' = Some (editor_getData ed)"
    using True by (simp add: c'_def emit_ready_fields record_action_fields)
  from 1 2 3 4 show ?thesis by blast
next
  case False
  define c1 where "c1 = record_action (Call GetData) c"
  have i1: "inst c1 = Some ed" and l1: "log c1 = log c @ [Call GetData]"
    and d1: "priv_data c1 = priv_data c"
    using i by (simp_all add: c1_def record_action_fields)
  obtain c2 xs where
    f: "fire ed nm c1 = Inr c2" and l2: "log c2 = log c1 @ Call (Fire nm) # xs" and
    nf: "\<forall>n. Call (Fire n) \<notin> set xs" and
    d2: "(nm, PropagateChange) \<in> set (listeners ed) \<or> priv_data c1 = Some (content ed)
           \<longrightarrow> priv_data c2 = Some (content ed)"
    using fire_Inr [OF i1, of ed nm] by (elim exE conjE)
  from d2 b have d2': "priv_data c2 = Some (editor_getData ed)"
    by (simp add: editor_getData_def)
  have "fire ed (if undo then ''change'' else ''dataReady'') c1 = Inr c2"
    using f nm by simp
  then have f': "(if undo then fire ed ''change'' c1 else fire ed ''dataReady'' c1) = Inr c2"
    by (cases undo) simp_all
  have g: "get_data c1 \<noteq> Some (editor_getData ed)"
    using False d1 by (simp add: get_data_def)
  define c' where "c' = emit_ready cb (if undo then record_action (Call UndoUnlock) c2 else c2)"
  have "setData_callback cb undo ed c =
          (case (if get_data c1 \<noteq> Some (editor_getData ed)
                 then (if undo then fire ed ''change'' c1 else fire ed ''dataReady'' c1)
                 else Inr c1) of
             Inl err \<Rightarrow> Inl err
           | Inr c2 \<Rightarrow>
               Inr (emit_ready cb (if undo then record_action (Call UndoUnlock) c2 else c2)))"
    by (simp add: setData_callback_def Let_def c1_def)
  also have "\<dots> = Inr c'"
    by (simp add: g f' c'_def)
  finally have 1: "setData_callback cb undo ed c = Inr c'" .
  have 2: "log c' = log c @ Call GetData #
             (if priv_data c \<noteq> Some (editor_getData ed) then Call (Fire nm) # xs else []) @
             (if undo then [Call UndoUnlock] else []) @
             (if cb then [UserInstanceReady] else []) @ [Emit Ready]"
    using l1 l2 False
    by (simp add: c'_def emit_ready_fields record_action_fields)
  have 4: "priv_data c' = Some (editor_getData ed)"
    using d2' by (simp add: c'_def emit_ready_fields record_action_fields)
  from 1 2 nf 4 show ?thesis by blast
qed

lemma listeners_ready:
  "listeners (editor_setData d (subscribe (editor_setReadOnly r ed))) = listeners ed @
     [(''focus'', Forward Focus), (''paste'', Forward Paste),
      (''afterPaste'', Forward AfterPaste), (''dragend'', Forward DragEnd),
      (''dragstart'', Forward DragStart), (''drop'', Forward Drop),
      (''fileUploadRequest'', Forward FileUploadRequest),
      (''fileUploadResponse'', Forward FileUploadResponse),
      (''blur'', BlurHandler), (''dataReady'', PropagateChange),
      (if undoManager ed then ''change'' else ''selectionCheck'', PropagateChange)]"
  by (simp add: editor_setData_fields listeners_subscribe editor_setReadOnly_fields)

lemma dataReady_bound:
  "(''dataReady'', PropagateChange)
     \<in> set (listeners (editor_setData d (subscribe (editor_setReadOnly r ed))))"
  by (simp add: listeners_ready)

lemma dataReady_single:
  "listeners ed = [] \<Longrightarrow>
   filter (\<lambda>p. fst p = ''dataReady'')
     (listeners (editor_setData d (subscribe (editor_setReadOnly r ed))))
   = [(''dataReady'', PropagateChange)]"
  by (simp add: listeners_ready)

lemma set_readOnly_instance:
  assumes "inst c = Some e"
  shows "set_readOnly b c = on_instance (SetReadOnly b) (editor_setReadOnly b) c"
  using assms by (simp add: set_readOnly_def)

lemma instanceReady_data:
  assumes pd: "priv_data c = Some d"
    and r: "r = (case priv_readOnly c of Some b \<Rightarrow> b | None \<Rightarrow> readOnly ed)"
    and e': "e' = editor_setData (Some d) (subscribe (editor_setReadOnly r ed))"
  shows "\<exists>c' xs. instanceReady cb ed c = Inr c' \<and> inst c' = Some e' \<and>
           priv_data c' = Some (content e') \<and> priv_readOnly c' = priv_readOnly c \<and>
           log c' = log c @ [Call (SetReadOnly r)] @
             (if undoManager ed then [Call UndoLock] else []) @
             [Call (SetData (Some d))] @ xs @ [Call GetData] @
             (if undoManager ed then [Call UndoUnlock] else []) @
             (if cb then [UserInstanceReady] else []) @ [Emit Ready] \<and>
           setReadOnly_calls xs = [] \<and> (\<forall>n. Call (Fire n) \<notin> set xs) \<and>
           (listeners ed = [] \<longrightarrow> xs = propagated ''dataReady'' c (acf ed (Some d)))"
proof -
  define c1 where "c1 = c\<lparr> inst := Some ed \<rparr>"
  define c2 where "c2 = set_readOnly r c1"
  define c3 where "c3 = c2\<lparr> inst := map_option subscribe (inst c2) \<rparr>"
  define c4 where "c4 = (if undoManager ed then on_instance UndoLock id c3 else c3)"
  define c5 where "c5 = on_instance (SetData (Some d)) (editor_setData (Some d)) c4"
  have c1: "inst c1 = Some ed" "log c1 = log c" "priv_data c1 = Some d"
    "priv_readOnly c1 = priv_readOnly c" "onChange c1 = onChange c"
    using pd by (simp_all add: c1_def)
  have c2eq: "c2 = on_instance (SetReadOnly r) (editor_setReadOnly r) c1"
    unfolding c2_def using c1(1) by (rule set_readOnly_instance)
  have c2: "inst c2 = Some (editor_setReadOnly r ed)" "log c2 = log c @ [Call (SetReadOnly r)]"
    "priv_data c2 = Some d" "priv_readOnly c2 = priv_readOnly c" "onChange c2 = onChange c"
    using c1 by (simp_all add: c2eq on_instance_fields)
  have c3: "inst c3 = Some (subscribe (editor_setReadOnly r ed))"
    "log c3 = log c @ [Call (SetReadOnly r)]"
    "priv_data c3 = Some d" "priv_readOnly c3 = priv_readOnly c" "onChange c3 = onChange c"
    using c2 by (simp_all add: c3_def)
  have c4: "inst c4 = Some (subscribe (editor_setReadOnly r ed))"
    "log c4 = log c @ [Call (SetReadOnly r)] @ (if undoManager ed then [Call UndoLock] else [])"
    "priv_data c4 = Some d" "priv_readOnly c4 = priv_readOnly c" "onChange c4 = onChange c"
    using c3 by (simp_all add: c4_def on_instance_fields)
  have c5: "inst c5 = Some e'"
    "log c5 = log c @ [Call (SetReadOnly r)] @ (if undoManager ed then [Call UndoLock] else [])
                @ [Call (SetData (Some d))]"
    "priv_data c5 = Some d" "priv_readOnly c5 = priv_readOnly c" "onChange c5 = onChange c"
    using c4 by (simp_all add: c5_def on_instance_fields e')
  have ce: "content e' = acf ed (Some d)"
    by (simp add: e' editor_setData_fields subscribe_fields editor_setReadOnly_fields)
  have r1: "(case priv_readOnly (c\<lparr> inst := Some ed \<rparr>) of
               Some b \<Rightarrow> b | None \<Rightarrow> readOnly ed) = r"
    by (simp add: r)
  have "instanceReady cb ed c =
          (case get_data c3 of
             Some d \<Rightarrow>
               (case native_event (editor_setData (Some d) (subscribe (editor_setReadOnly r ed)))
                       ''dataReady''
                       (on_instance (SetData (Some d)) (editor_setData (Some d))
                          (if undoManager ed then on_instance UndoLock id c3 else c3)) of
                  Inl err \<Rightarrow> Inl err
                | Inr c6 \<Rightarrow>
                    setData_callback cb (undoManager ed)
                      (editor_setData (Some d) (subscribe (editor_setReadOnly r ed))) c6)
           | None \<Rightarrow> Inr (emit_ready cb c3))"
    unfolding instanceReady_def Let_def r1 c3_def c2_def c1_def by (rule refl)
  also have "\<dots> = (case native_event e' ''dataReady'' c5 of
                  Inl err \<Rightarrow> Inl err
                | Inr c6 \<Rightarrow> setData_callback cb (undoManager ed) e' c6)"
    unfolding e' c5_def c4_def by (simp add: get_data_def c3(3))
  finally have eq: "instanceReady cb ed c =
      (case native_event e' ''dataReady'' c5 of
         Inl err \<Rightarrow> Inl err
       | Inr c6 \<Rightarrow> setData_callback cb (undoManager ed) e' c6)" .
  have b: "(''dataReady'', PropagateChange) \<in> set (listeners e')"
    unfolding e' by (rule dataReady_bound)
  obtain c6 xs where
    n: "native_event e' ''dataReady'' c5 = Inr c6" and l6: "log c6 = log c5 @ xs" and
    s: "setReadOnly_calls xs = []" and f: "\<forall>n. Call (Fire n) \<notin> set xs" and
    i6: "inst c6 = Some e'" and ro6: "priv_readOnly c6 = priv_readOnly c5" and
    d6: "(''dataReady'', PropagateChange) \<in> set (listeners e') \<or>
           priv_data c5 = Some (content e') \<longrightarrow> priv_data c6 = Some (content e')" and
    x: "filter (\<lambda>p. fst p = ''dataReady'') (listeners e') = [(''dataReady'', PropagateChange)]
          \<longrightarrow> xs = propagated ''dataReady'' c5 (content e')"
    using native_event_Inr [OF c5(1), of e' "''dataReady''"] by (elim exE conjE)
  from d6 b have pd6: "priv_data c6 = Some (editor_getData e')"
    by (simp add: editor_getData_def)
  define c' where "c' = emit_ready cb
      (if undoManager ed then record_action (Call UndoUnlock) (record_action (Call GetData) c6)
       else record_action (Call GetData) c6)"
  have cb: "setData_callback cb (undoManager ed) e' c6 = Inr c'"
    unfolding c'_def using pd6 by (rule setData_callback_same)
  have q1: "instanceReady cb ed c = Inr c'"
    using eq n cb by simp
  have q2: "inst c' = Some e'"
    using i6 by (simp add: c'_def emit_ready_fields record_action_fields)
  have q3: "priv_data c' = Some (content e')"
    using pd6 by (simp add: c'_def emit_ready_fields record_action_fields editor_getData_def)
  have q4: "priv_readOnly c' = priv_readOnly c"
    using ro6 c5(4) by (simp add: c'_def emit_ready_fields record_action_fields)
  have q5: "log c' = log c @ [Call (SetReadOnly r)] @
             (if undoManager ed then [Call UndoLock] else []) @
             [Call (SetData (Some d))] @ xs @ [Call GetData] @
             (if undoManager ed then [Call UndoUnlock] else []) @
             (if cb then [UserInstanceReady] else []) @ [Emit Ready]"
    using l6 c5(2) by (simp add: c'_def emit_ready_fields record_action_fields)
  have q7: "listeners ed = [] \<longrightarrow> xs = propagated ''dataReady'' c (acf ed (Some d))"
  proof
    assume "listeners ed = []"
    then have "filter (\<lambda>p. fst p = ''dataReady'') (listeners e')
                 = [(''dataReady'', PropagateChange)]"
      unfolding e' by (rule dataReady_single)
    with x have "xs = propagated ''dataReady'' c5 (content e')" by simp
    also have "\<dots> = propagated ''dataReady'' c (content e')"
      using c5(3) pd c5(5) by (simp add: propagated_cong)
    finally show "xs = propagated ''dataReady'' c (acf ed (Some d))" by (simp add: ce)
  qed
  from q1 q2 q3 q4 q5 s f q7 show ?thesis by blast
qed

lemma instanceReady_no_data:
  assumes pd: "priv_data c = None"
    and r: "r = (case priv_readOnly c of Some b \<Rightarrow> b | None \<Rightarrow> readOnly ed)"
  shows "\<exists>c'. instanceReady cb ed c = Inr c' \<and>
           inst c' = Some (subscribe (editor_setReadOnly r ed)) \<and>
           priv_data c' = None \<and> priv_readOnly c' = priv_readOnly c \<and>
           priv_destroyed c' = priv_destroyed c \<and>
           log c' = log c @ [Call (SetReadOnly r)] @
             (if cb then [UserInstanceReady] else []) @ [Emit Ready]"
proof -
  define c1 where "c1 = c\<lparr> inst := Some ed \<rparr>"
  define c2 where "c2 = set_readOnly r c1"
  define c3 where "c3 = c2\<lparr> inst := map_option subscribe (inst c2) \<rparr>"
  have c1: "inst c1 = Some ed" "log c1 = log c" "priv_data c1 = None"
    "priv_readOnly c1 = priv_readOnly c" "priv_destroyed c1 = priv_destroyed c"
    using pd by (simp_all add: c1_def)
  have c2eq: "c2 = on_instance (SetReadOnly r) (editor_setReadOnly r) c1"
    unfolding c2_def using c1(1) by (rule set_readOnly_instance)
  have c2: "inst c2 = Some (editor_setReadOnly r ed)" "log c2 = log c @ [Call (SetReadOnly r)]"
    "priv_data c2 = None" "priv_readOnly c2 = priv_readOnly c"
    "priv_destroyed c2 = priv_destroyed c"
    using c1 by (simp_all add: c2eq on_instance_fields)
  have c3: "inst c3 = Some (subscribe (editor_setReadOnly r ed))"
    "log c3 = log c @ [Call (SetReadOnly r)]"
    "priv_data c3 = None" "priv_readOnly c3 = priv_readOnly c"
    "priv_destroyed c3 = priv_destroyed c"
    using c2 by (simp_all add: c3_def)
  have r1: "(case priv_readOnly (c\<lparr> inst := Some ed \<rparr>) of
               Some b \<Rightarrow> b | None \<Rightarrow> readOnly ed) = r"
    by (simp add: r)
  have "instanceReady cb ed c =
          (case get_data c3 of
             Some d \<Rightarrow>
               (case native_event (editor_setData (Some d) (subscribe (editor_setReadOnly r ed)))
                       ''dataReady''
                       (on_instance (SetData (Some d)) (editor_setData (Some d))
                          (if undoManager ed then on_instance UndoLock id c3 else c3)) of
                  Inl err \<Rightarrow> Inl err
                | Inr c6 \<Rightarrow>
                    setData_callback cb (undoManager ed)
                      (editor_setData (Some d) (subscribe (editor_setReadOnly r ed))) c6)
           | None \<Rightarrow> Inr (emit_ready cb c3))"
    unfolding instanceReady_def Let_def r1 c3_def c2_def c1_def by (rule refl)
  also have "\<dots> = Inr (emit_ready cb c3)"
    by (simp add: get_data_def c3(3))
  finally have "instanceReady cb ed c = Inr (emit_ready cb c3)" .
  then show ?thesis
    using c3 by (simp add: emit_ready_fields emit_ready_def emit_def record_action_fields)
qed

lemma written_component_fields:
  "priv_data written_component = Some ''hello''"
  "onChange written_component"
  "priv_readOnly written_component = None"
  "log written_component = []"
  by (simp_all add: written_component_def registerOnChange_def set_data_def new_component_def)

lemma paragraph_editor_fields:
  "listeners paragraph_editor = []"
  "undoManager paragraph_editor"
  "readOnly paragraph_editor = False"
  by (simp_all add: paragraph_editor_def)

lemma instanceReady_readOnly:
  "\<exists>c' ys. instanceReady cb ed c = Inr c' \<and>
     added c c' = Call (SetReadOnly (case priv_readOnly c of Some p \<Rightarrow> p | None \<Rightarrow> readOnly ed)) # ys \<and>
     setReadOnly_calls ys = [] \<and>
     get_readOnly c' = Some (case priv_readOnly c of Some p \<Rightarrow> p | None \<Rightarrow> readOnly ed) \<and>
     priv_readOnly c' = priv_readOnly c"
proof -
  define r where "r = (case priv_readOnly c of Some b \<Rightarrow> b | None \<Rightarrow> readOnly ed)"
  show ?thesis
  proof (cases "priv_data c")
    case None
    obtain c' where
      a: "instanceReady cb ed c = Inr c'" and
      b: "inst c' = Some (subscribe (editor_setReadOnly r ed))" and
      ro: "priv_readOnly c' = priv_readOnly c" and
      l: "log c' = log c @ [Call (SetReadOnly r)] @
             (if cb then [UserInstanceReady] else []) @ [Emit Ready]"
      using instanceReady_no_data [OF None r_def, of cb] by (elim exE conjE)
    define ys where "ys = (if cb then [UserInstanceReady] else []) @ [Emit Ready]"
    from l have "log c' = log c @ Call (SetReadOnly r) # ys" by (simp add: ys_def)
    then have l': "added c c' = Call (SetReadOnly r) # ys" by (rule added_append)
    have s: "setReadOnly_calls ys = []"
      by (simp add: ys_def setReadOnly_calls_simps)
    have g: "get_readOnly c' = Some r"
      using b by (simp add: get_readOnly_def subscribe_fields editor_setReadOnly_fields)
    from a l' s g ro show ?thesis unfolding r_def by blast
  next
    case (Some d)
    define e' where "e' = editor_setData (Some d) (subscribe (editor_setReadOnly r ed))"
    obtain c' xs where
      a: "instanceReady cb ed c = Inr c'" and b: "inst c' = Some e'" and
      ro: "priv_readOnly c' = priv_readOnly c" and
      l: "log c' = log c @ [Call (SetReadOnly r)] @
             (if undoManager ed then [Call UndoLock] else []) @
             [Call (SetData (Some d))] @ xs @ [Call GetData] @
             (if undoManager ed then [Call UndoUnlock] else []) @
             (if cb then [UserInstanceReady] else []) @ [Emit Ready]" and
      sx: "setReadOnly_calls xs = []"
      using instanceReady_data [OF Some r_def e'_def, of cb] by (elim exE conjE)
    define ys where "ys = (if undoManager ed then [Call UndoLock] else []) @
             [Call (SetData (Some d))] @ xs @ [Call GetData] @
             (if undoManager ed then [Call UndoUnlock] else []) @
             (if cb then [UserInstanceReady] else []) @ [Emit Ready]"
    from l have "log c' = log c @ Call (SetReadOnly r) # ys" by (simp add: ys_def)
    then have l': "added c c' = Call (SetReadOnly r) # ys" by (rule added_append)
    have s: "setReadOnly_calls ys = []"
      using sx by (simp add: ys_def setReadOnly_calls_simps)
    have g: "get_readOnly c' = Some r"
      using b by (simp add: get_readOnly_def e'_def editor_setData_fields subscribe_fields
          editor_setReadOnly_fields)
    from a l' s g ro show ?thesis unfolding r_def by blast
  qed
qed

lemma ngAfterViewInit_destroyed:
  assumes "priv_destroyed d"
  shows "ngAfterViewInit p (Loaded called_back) d
           = (if called_back then emit NamespaceLoaded d else d)"
  using assms
  by (simp add: namespace_then_def onNamespaceLoaded_def emit_def record_action_fields)

lemma ngAfterViewInit_live:
  assumes "\<not> priv_destroyed d"
  shows "log (ngAfterViewInit p (Loaded False) d) = log d @
           (if \<not> element_ok p (tagName d) then [ConsoleError]
            else if \<not> construct_ok p (if ed_type d = INLINE then INLINE else CLASSIC) (tagName d)
            then [CreateElement (tagName d), ConsoleError]
            else [CreateElement (tagName d),
                  Construct (if ed_type d = INLINE then INLINE else CLASSIC)])"
    and "inst (ngAfterViewInit p (Loaded False) d) = inst d"
    and "priv_data (ngAfterViewInit p (Loaded False) d) = priv_data d"
    and "priv_readOnly (ngAfterViewInit p (Loaded False) d) = priv_readOnly d"
  using assms
  by (simp_all add: namespace_then_def createEditor_def Let_def record_action_fields)

section \<open>Claims about the mock transfer payload\<close>

text \<open>
  C6, as stated, at its own scenario: after \<^verbatim>\<open>setData('Text', 'hello')\<close> and
  \<^verbatim>\<open>clearData('Text')\<close> the entry stored under \<^verbatim>\<open>'text/plain'\<close> is still there, so the
  clearing does not remove it.
\<close>

theorem mock_Text_alias_survives_clear:
  "getData ''text/plain'' (clearData ''Text'' (setData ''Text'' ''hello'' mockNativeDataTransfer))
     = Some ''hello''"
  by (simp add: getData_def data_clearData setData_def mockNativeDataTransfer_def Let_def)

text \<open>
  C6, amended: on a fresh mock, after \<^verbatim>\<open>setData('Text', v)\<close> the value is read back under
  \<^verbatim>\<open>'text/plain'\<close> and the type list is \<^verbatim>\<open>['Text']\<close>; \<^verbatim>\<open>clearData('Text')\<close> then deletes
  the entry stored under \<^verbatim>\<open>'Text'\<close> only, the one under \<^verbatim>\<open>'text/plain'\<close> keeps the value,
  and the type list, which never held \<^verbatim>\<open>'text/plain'\<close>, is empty.
\<close>

theorem mock_Text_scenario:
  "getData ''text/plain'' (setData ''Text'' v mockNativeDataTransfer) = Some v \<and>
   types (setData ''Text'' v mockNativeDataTransfer) = [''Text''] \<and>
   getData ''Text'' (clearData ''Text'' (setData ''Text'' v mockNativeDataTransfer)) = None \<and>
   getData ''text/plain'' (clearData ''Text'' (setData ''Text'' v mockNativeDataTransfer)) = Some v \<and>
   types (clearData ''Text'' (setData ''Text'' v mockNativeDataTransfer)) = []"
  by (simp add: getData_def data_clearData types_clearData types_setData)
     (simp add: setData_def mockNativeDataTransfer_def Let_def)

text \<open>
  C10: the type list after a run of \<^verbatim>\<open>setData\<close> calls is the list before, followed by the
  types passed, in call order (on a fresh mock: exactly the types passed). One call
  appends the type it was given and nothing else, also when it stores the value under
  both \<^verbatim>\<open>'text/plain'\<close> and \<^verbatim>\<open>'Text'\<close>; a second call with the same type appends the type
  again. \<^verbatim>\<open>clearData\<close> with a type that is in the list removes the first occurrence of
  the type from the list, so one entry, and deletes the entry stored under that type and
  no other; with a type that is not in the list it changes nothing.
\<close>

theorem mock_type_list:
  "types (setData_all calls mockNativeDataTransfer) = map fst calls \<and>
   types (setData_all calls t) = types t @ map fst calls \<and>
   types (setData type v t) = types t @ [type] \<and>
   (type = ''text/plain'' \<or> type = ''Text'' \<longrightarrow>
      getData ''text/plain'' (setData type v t) = Some v \<and>
      getData ''Text'' (setData type v t) = Some v) \<and>
   types (setData type w (setData type v t)) = types t @ [type, type] \<and>
   types (clearData type t) = remove1 type (types t) \<and>
   length (types t) \<le> Suc (length (types (clearData type t))) \<and>
   (\<forall>k. k \<noteq> type \<longrightarrow> getData k (clearData type t) = getData k t) \<and>
   (type \<in> set (types t) \<longrightarrow>
      getData type (clearData type t) = None \<and>
      mock_data (clearData type t) = (mock_data t)(type := None) \<and>
      length (types (clearData type t)) = length (types t) - 1) \<and>
   (type \<notin> set (types t) \<longrightarrow> clearData type t = t)"
proof -
  have "types (setData_all calls mockNativeDataTransfer) = map fst calls"
    by (simp add: types_setData_all mockNativeDataTransfer_def)
  moreover have "type = ''text/plain'' \<or> type = ''Text'' \<longrightarrow>
      getData ''text/plain'' (setData type v t) = Some v \<and>
      getData ''Text'' (setData type v t) = Some v"
    by (simp add: getData_def data_setData)
  moreover have "length (types t) \<le> Suc (length (types (clearData type t)))"
    by (simp add: types_clearData length_remove1) arith
  moreover have "\<forall>k. k \<noteq> type \<longrightarrow> getData k (clearData type t) = getData k t"
    by (simp add: getData_def data_clearData)
  moreover have "type \<in> set (types t) \<longrightarrow>
      getData type (clearData type t) = None \<and>
      mock_data (clearData type t) = (mock_data t)(type := None) \<and>
      length (types (clearData type t)) = length (types t) - 1"
    by (simp add: getData_def data_clearData types_clearData length_remove1)
  moreover have "type \<notin> set (types t) \<longrightarrow> clearData type t = t"
    by (simp add: clearData_def Let_def indexOf_absent)
  ultimately show ?thesis
    by (simp add: types_setData_all types_setData types_clearData)
qed

theorem mock_type_list_witness:
  "types (setData_all [(''Text'', ''a''), (''text/html'', ''b''), (''Text'', ''c'')]
            mockNativeDataTransfer) = [''Text'', ''text/html'', ''Text''] \<and>
   getData ''text/plain'' (setData ''Text'' ''a'' mockNativeDataTransfer) = Some ''a'' \<and>
   getData ''text/plain''
     (clearData ''Text'' (setData ''Text'' ''a'' mockNativeDataTransfer)) = Some ''a'' \<and>
   getData ''Text''
     (clearData ''Text'' (setData ''Text'' ''a'' mockNativeDataTransfer)) = None \<and>
   clearData ''text/html'' (setData ''Text'' ''a'' mockNativeDataTransfer)
     = setData ''Text'' ''a'' mockNativeDataTransfer"
proof -
  have m: "''Text'' \<in> set (types (setData ''Text'' ''a'' mockNativeDataTransfer))"
    "''text/html'' \<notin> set (types (setData ''Text'' ''a'' mockNativeDataTransfer))"
    by (simp_all add: types_setData mockNativeDataTransfer_def)
  have g: "getData ''text/plain'' (setData ''Text'' ''a'' mockNativeDataTransfer) = Some ''a''"
    using mock_type_list [of "[]" mockNativeDataTransfer "''Text''" "''a''" "''c''"]
    by simp
  have "types (setData_all [(''Text'', ''a''), (''text/html'', ''b''), (''Text'', ''c'')]
            mockNativeDataTransfer) = [''Text'', ''text/html'', ''Text'']"
    using mock_type_list [of "[(''Text'', ''a''), (''text/html'', ''b''), (''Text'', ''c'')]"
                           mockNativeDataTransfer "''Text''" "''a''" "''c''"]
    by simp
  moreover have "getData ''text/plain''
     (clearData ''Text'' (setData ''Text'' ''a'' mockNativeDataTransfer)) = Some ''a'' \<and>
   getData ''Text''
     (clearData ''Text'' (setData ''Text'' ''a'' mockNativeDataTransfer)) = None"
    using mock_type_list [of "[]" "setData ''Text'' ''a'' mockNativeDataTransfer" "''Text''"
                             "''a''" "''c''"] m(1) g
    by simp
  moreover have "clearData ''text/html'' (setData ''Text'' ''a'' mockNativeDataTransfer)
     = setData ''Text'' ''a'' mockNativeDataTransfer"
    using mock_type_list [of "[]" "setData ''Text'' ''a'' mockNativeDataTransfer" "''text/html''"
                             "''a''" "''c''"] m(2)
    by blast
  ultimately show ?thesis using g by blast
qed

section \<open>Claims about the sequenced data injection\<close>

text \<open>
  C7, as stated, at an inline instance that serializes text as a paragraph: after the
  helper has pushed the one string \<^verbatim>\<open>'hello'\<close>, the instance's content is not that string.
\<close>

theorem setDataMultipleTimes_content_differs:
  "content (sut (snd (setDataMultipleTimes [''hello''] (start paragraph_editor))))
     \<noteq> last [''hello'']"
  by (simp add: setDataMultipleTimes_def start_def paragraph_editor_def push_def res_def
      editor_setData_def)

text \<open>
  C7, amended. On an inline instance every string is pushed in order at the time of the
  call, and the promise is resolved at that same time, after the last push. On any other
  instance the \<open>i\<close>-th push happens \<open>100 * i\<close> ms after the call (so 100 ms lie between two
  pushes) and the promise is resolved 100 ms after the last one. In both cases the final
  content is what the instance serializes for the last string, so the last string itself
  where the instance leaves it unchanged; for an empty sequence the content stays.
\<close>

theorem setDataMultipleTimes_sequence:
  assumes "r' = snd (setDataMultipleTimes xs r)"
  shows "(isInline (sut r) \<longrightarrow>
            pushes r' = pushes r @ map (\<lambda>c. (now r, c)) xs \<and>
            now r' = now r \<and> resolved r' = Some (now r)) \<and>
         (\<not> isInline (sut r) \<longrightarrow>
            pushes r' = pushes r @ map (\<lambda>(i, c). (now r + 100 * i, c)) (enumerate 1 xs) \<and>
            resolved r' = Some (now r + 100 * Suc (length xs))) \<and>
         (xs = [] \<longrightarrow> content (sut r') = content (sut r)) \<and>
         (xs \<noteq> [] \<longrightarrow> content (sut r') = acf (sut r) (Some (last xs))) \<and>
         (xs \<noteq> [] \<and> acf (sut r) (Some (last xs)) = last xs \<longrightarrow> content (sut r') = last xs)"
proof (cases "isInline (sut r)")
  case True
  with assms have "r' = res (fold push xs r)"
    by (simp add: setDataMultipleTimes_def)
  with True show ?thesis
    by (simp add: res_fields fold_push_pushes fold_push_now fold_push_content)
next
  case False
  with assms have "r' = snd (setDataHelper xs r)"
    by (simp add: setDataMultipleTimes_def)
  with False show ?thesis
    by (simp add: setDataHelper_pushes setDataHelper_resolved setDataHelper_content
        res_fields setTimeout_fields)
qed

theorem setDataMultipleTimes_sequence_witness:
  "pushes (snd (setDataMultipleTimes [''<p>B</p>'', ''<p>C</p>''] (start (verbatim_editor True))))
     = [(0, ''<p>B</p>''), (0, ''<p>C</p>'')] \<and>
   resolved (snd (setDataMultipleTimes [''<p>B</p>'', ''<p>C</p>''] (start (verbatim_editor True))))
     = Some 0 \<and>
   content (sut (snd (setDataMultipleTimes [''<p>B</p>'', ''<p>C</p>'']
                        (start (verbatim_editor True))))) = ''<p>C</p>'' \<and>
   pushes (snd (setDataMultipleTimes [''<p>B</p>'', ''<p>C</p>''] (start (verbatim_editor False))))
     = [(100, ''<p>B</p>''), (200, ''<p>C</p>'')] \<and>
   resolved (snd (setDataMultipleTimes [''<p>B</p>'', ''<p>C</p>''] (start (verbatim_editor False))))
     = Some 300"
  using setDataMultipleTimes_sequence
          [where xs = "[''<p>B</p>'', ''<p>C</p>'']" and r = "start (verbatim_editor True)", OF refl]
        setDataMultipleTimes_sequence
          [where xs = "[''<p>B</p>'', ''<p>C</p>'']" and r = "start (verbatim_editor False)", OF refl]
  by (simp add: start_def verbatim_editor_def enumerate_eq_zip upt_rec)

text \<open>
  C9: on an instance that is not inline the caller's array is empty once the promise is
  resolved, every element having been shifted off and pushed in order; on an inline
  instance the same strings are pushed and the array is left as it was.
\<close>

theorem setDataMultipleTimes_mutates_array:
  "(\<not> isInline (sut r) \<longrightarrow>
      fst (setDataMultipleTimes xs r) = [] \<and>
      map snd (pushes (snd (setDataMultipleTimes xs r))) = map snd (pushes r) @ xs \<and>
      resolved (snd (setDataMultipleTimes xs r)) \<noteq> None) \<and>
   (isInline (sut r) \<longrightarrow>
      fst (setDataMultipleTimes xs r) = xs \<and>
      map snd (pushes (snd (setDataMultipleTimes xs r))) = map snd (pushes r) @ xs \<and>
      resolved (snd (setDataMultipleTimes xs r)) \<noteq> None)"
proof (cases "isInline (sut r)")
  case True
  then have "setDataMultipleTimes xs r = (xs, res (fold push xs r))"
    by (simp add: setDataMultipleTimes_def)
  with True show ?thesis
    by (simp add: fold_push_pushes res_fields comp_def)
next
  case False
  then have "setDataMultipleTimes xs r = setDataHelper xs r"
    by (simp add: setDataMultipleTimes_def)
  with False show ?thesis
    by (simp add: setDataHelper_array setDataHelper_pushes setDataHelper_resolved
        stamps_contents)
qed


theorem setDataMultipleTimes_mutates_array_witness:
  "fst (setDataMultipleTimes [''<p>B</p>'', ''<p>C</p>''] (start (verbatim_editor False))) = [] \<and>
   fst (setDataMultipleTimes [''<p>B</p>'', ''<p>C</p>''] (start (verbatim_editor True)))
     = [''<p>B</p>'', ''<p>C</p>'']"
  using setDataMultipleTimes_mutates_array
          [of "start (verbatim_editor False)" "[''<p>B</p>'', ''<p>C</p>'']"]
        setDataMultipleTimes_mutates_array
          [of "start (verbatim_editor True)" "[''<p>B</p>'', ''<p>C</p>'']"]
  by (simp add: start_def verbatim_editor_def)

section \<open>Claims about the component\<close>

text \<open>
  C1: one run of \<^verbatim>\<open>propagateChange\<close> on a component that holds an instance returns
  normally. \<^verbatim>\<open>dataChange\<close> is emitted if and only if the content read from the instance
  differs from the cached value; then the cache holds the new content, the emission
  carries it, and the change callback is invoked with it exactly when one is registered.
  When the content equals the cache, the cache stays and no callback is invoked.
  \<^verbatim>\<open>change\<close> is emitted exactly when the event is named \<^verbatim>\<open>change\<close>, \<^verbatim>\<open>dataReady\<close> exactly
  when it is named \<^verbatim>\<open>dataReady\<close>, whatever the content. The whole addition to the log is
  \<open>propagated\<close>.
\<close>

theorem propagateChange_emissions:
  assumes "inst c = Some e"
  shows "\<exists>c'. propagateChange name c = Inr c' \<and>
           ((\<exists>d. Emit (DataChange d) \<in> set (added c c')) \<longleftrightarrow>
              Some (editor_getData e) \<noteq> priv_data c) \<and>
           (Some (editor_getData e) \<noteq> priv_data c \<longrightarrow>
              priv_data c' = Some (editor_getData e) \<and>
              Emit (DataChange (editor_getData e)) \<in> set (added c c') \<and>
              (\<forall>d. Emit (DataChange d) \<in> set (added c c') \<longrightarrow> d = editor_getData e) \<and>
              (OnChange (editor_getData e) \<in> set (added c c') \<longleftrightarrow> onChange c)) \<and>
           (Some (editor_getData e) = priv_data c \<longrightarrow>
              priv_data c' = priv_data c \<and> (\<forall>d. OnChange d \<notin> set (added c c'))) \<and>
           (Emit Change \<in> set (added c c') \<longleftrightarrow> name = ''change'') \<and>
           (Emit DataReady \<in> set (added c c') \<longleftrightarrow> name = ''dataReady'') \<and>
           added c c' = propagated name c (editor_getData e)"
proof -
  from propagateChange_Inr [OF assms, of name] obtain c' where
    r: "propagateChange name c = Inr c'" and
    l: "log c' = log c @ propagated name c (content e)" and
    d: "priv_data c' = Some (content e)"
    by blast
  from l have a: "added c c' = propagated name c (content e)" by (rule added_append)
  show ?thesis
    using r d by (auto simp add: a editor_getData_def propagated_def)
qed

theorem propagateChange_emissions_witness:
  "\<exists>c'. propagateChange ''change''
            (new_component\<lparr> inst := Some paragraph_editor, onChange := True \<rparr>) = Inr c' \<and>
         priv_data c' = Some [] \<and>
         added (new_component\<lparr> inst := Some paragraph_editor, onChange := True \<rparr>) c' =
           [Call GetData, Emit Change, Emit (DataChange []), OnChange []]"
proof -
  have i: "inst (new_component\<lparr> inst := Some paragraph_editor, onChange := True \<rparr>)
             = Some paragraph_editor"
    by simp
  have d: "priv_data (new_component\<lparr> inst := Some paragraph_editor, onChange := True \<rparr>) = None"
    by (simp add: new_component_def)
  have g: "editor_getData paragraph_editor = []"
    by (simp add: editor_getData_def paragraph_editor_def)
  from propagateChange_emissions [OF i, of "''change''"] obtain c' where
    r: "propagateChange ''change''
          (new_component\<lparr> inst := Some paragraph_editor, onChange := True \<rparr>) = Inr c'" and
    p: "Some (editor_getData paragraph_editor) \<noteq>
          priv_data (new_component\<lparr> inst := Some paragraph_editor, onChange := True \<rparr>)
        \<longrightarrow> priv_data c' = Some (editor_getData paragraph_editor)" and
    a: "added (new_component\<lparr> inst := Some paragraph_editor, onChange := True \<rparr>) c' =
          propagated ''change''
            (new_component\<lparr> inst := Some paragraph_editor, onChange := True \<rparr>)
            (editor_getData paragraph_editor)"
    by blast
  from p have "priv_data c' = Some []" by (simp add: d g)
  moreover from a have
    "added (new_component\<lparr> inst := Some paragraph_editor, onChange := True \<rparr>) c' =
       [Call GetData, Emit Change, Emit (DataChange []), OnChange []]"
    by (simp add: propagated_def d g)
  ultimately show ?thesis using r by blast
qed

text \<open>
  C2, as stated, at a component whose instance serializes text as a paragraph: the
  string \<^verbatim>\<open>'hello'\<close> is written twice in a row, and the second write calls \<^verbatim>\<open>setData\<close>
  and \<^verbatim>\<open>getData\<close> on the instance again, because the cache holds what the instance
  serialized after the first write.
\<close>

theorem set_data_twice_calls_again:
  "added (set_data (Some ''hello'') example_component)
         (set_data (Some ''hello'') (set_data (Some ''hello'') example_component))
     = [Call (SetData (Some ''hello'')), Call GetData]"
proof -
  have n: "Some ''hello'' \<noteq> priv_data example_component"
    by (simp add: example_component_fields)
  note i = example_component_fields(1)
  have p: "priv_data (set_data (Some ''hello'') example_component) = Some ''<p>hello</p>''"
    using set_data_instance(3) [OF n i] by (simp add: acf_paragraph_hello)
  then have n2: "Some ''hello'' \<noteq> priv_data (set_data (Some ''hello'') example_component)"
    by simp
  from set_data_instance(1) [OF n2 set_data_instance(2) [OF n i]]
  show ?thesis by (rule added_append)
qed

text \<open>
  C2, amended. A write of the cached value changes nothing and calls nothing. Any other
  write, with an instance, calls \<^verbatim>\<open>setData\<close> once with the value written, then
  \<^verbatim>\<open>getData\<close>, and caches what \<^verbatim>\<open>getData\<close> returns; with no instance it only caches
  the value. Writing a value twice in a row makes no second call when there is no
  instance, or when the instance serializes the value as that same string; when the
  instance serializes it differently, the second write calls \<^verbatim>\<open>setData\<close> again.
\<close>

theorem set_data_write:
  "(d = priv_data c \<longrightarrow> set_data d c = c) \<and>
   (d \<noteq> priv_data c \<and> inst c = Some e \<longrightarrow>
      added c (set_data d c) = [Call (SetData d), Call GetData] \<and>
      inst (set_data d c) = Some (editor_setData d e) \<and>
      priv_data (set_data d c) = Some (editor_getData (editor_setData d e))) \<and>
   (d \<noteq> priv_data c \<and> inst c = None \<longrightarrow> set_data d c = c\<lparr> priv_data := d \<rparr>) \<and>
   (inst c = None \<longrightarrow> set_data d (set_data d c) = set_data d c) \<and>
   (inst c = Some e \<and> d = Some (editor_getData (editor_setData d e)) \<longrightarrow>
      set_data d (set_data d c) = set_data d c) \<and>
   (inst c = Some e \<and> d \<noteq> priv_data c \<and> d \<noteq> Some (editor_getData (editor_setData d e)) \<longrightarrow>
      added (set_data d c) (set_data d (set_data d c)) = [Call (SetData d), Call GetData])"
proof -
  have g: "editor_getData (editor_setData d e) = acf e d"
    by (simp add: editor_getData_def editor_setData_fields)
  have 1: "d = priv_data c \<longrightarrow> set_data d c = c"
    by (simp add: set_data_same)
  have 2: "d \<noteq> priv_data c \<and> inst c = Some e \<longrightarrow>
      added c (set_data d c) = [Call (SetData d), Call GetData] \<and>
      inst (set_data d c) = Some (editor_setData d e) \<and>
      priv_data (set_data d c) = Some (editor_getData (editor_setData d e))"
    by (simp add: set_data_instance added_append g)
  have 3: "d \<noteq> priv_data c \<and> inst c = None \<longrightarrow> set_data d c = c\<lparr> priv_data := d \<rparr>"
    by (simp add: set_data_no_instance)
  have 4: "inst c = None \<longrightarrow> set_data d (set_data d c) = set_data d c"
  proof (cases "d = priv_data c")
    case True
    then show ?thesis by (simp add: set_data_same)
  next
    case False
    show ?thesis
    proof
      assume n: "inst c = None"
      with False have "priv_data (set_data d c) = d" by (simp add: set_data_no_instance)
      then show "set_data d (set_data d c) = set_data d c" by (simp add: set_data_same)
    qed
  qed
  have 5: "inst c = Some e \<and> d = Some (editor_getData (editor_setData d e)) \<longrightarrow>
      set_data d (set_data d c) = set_data d c"
  proof (cases "d = priv_data c")
    case True
    then show ?thesis by (simp add: set_data_same)
  next
    case False
    show ?thesis
    proof
      assume a: "inst c = Some e \<and> d = Some (editor_getData (editor_setData d e))"
      with False have "priv_data (set_data d c) = Some (acf e d)"
        by (simp add: set_data_instance)
      with a g have "d = priv_data (set_data d c)" by simp
      then show "set_data d (set_data d c) = set_data d c" by (rule set_data_same)
    qed
  qed
  have 6: "inst c = Some e \<and> d \<noteq> priv_data c \<and>
      d \<noteq> Some (editor_getData (editor_setData d e)) \<longrightarrow>
      added (set_data d c) (set_data d (set_data d c)) = [Call (SetData d), Call GetData]"
  proof
    assume a: "inst c = Some e \<and> d \<noteq> priv_data c \<and>
      d \<noteq> Some (editor_getData (editor_setData d e))"
    then have p: "priv_data (set_data d c) = Some (acf e d)"
      and i: "inst (set_data d c) = Some (editor_setData d e)"
      by (simp_all add: set_data_instance)
    from a p g have "d \<noteq> priv_data (set_data d c)" by simp
    from set_data_instance(1) [OF this i]
    show "added (set_data d c) (set_data d (set_data d c)) = [Call (SetData d), Call GetData]"
      by (rule added_append)
  qed
  from 1 2 3 4 5 6 show ?thesis by blast
qed

theorem set_data_write_witness:
  "added example_component (set_data (Some ''hello'') example_component)
     = [Call (SetData (Some ''hello'')), Call GetData] \<and>
   priv_data (set_data (Some ''hello'') example_component) = Some ''<p>hello</p>'' \<and>
   set_data None new_component = new_component \<and>
   set_data (Some ''hello'') (set_data (Some ''hello'') new_component)
     = set_data (Some ''hello'') new_component"
proof -
  have n: "Some ''hello'' \<noteq> priv_data example_component"
    by (simp add: example_component_fields)
  have g: "editor_getData (editor_setData (Some ''hello'') paragraph_editor) = ''<p>hello</p>''"
    by (simp add: editor_getData_def editor_setData_fields acf_paragraph_hello)
  have a: "None = priv_data new_component" and b: "inst new_component = None"
    by (simp_all add: new_component_def)
  from set_data_write [of "Some ''hello''" example_component paragraph_editor] n g
    example_component_fields(1)
  have "added example_component (set_data (Some ''hello'') example_component)
          = [Call (SetData (Some ''hello'')), Call GetData] \<and>
        priv_data (set_data (Some ''hello'') example_component) = Some ''<p>hello</p>''"
    by simp
  moreover from set_data_write [of None new_component paragraph_editor] a
  have "set_data None new_component = new_component" by blast
  moreover from set_data_write [of "Some ''hello''" new_component paragraph_editor] b
  have "set_data (Some ''hello'') (set_data (Some ''hello'') new_component)
          = set_data (Some ''hello'') new_component" by blast
  ultimately show ?thesis by blast
qed

text \<open>
  C8: of the listeners that \<^verbatim>\<open>subscribe\<close> registers on an editor, those that are
  \<^verbatim>\<open>propagateChange\<close> are bound to \<^verbatim>\<open>dataReady\<close> and to one more event: \<^verbatim>\<open>change\<close> when
  the editor has an undo manager, \<^verbatim>\<open>selectionCheck\<close> when it has none, and never to both.
\<close>

theorem subscribe_bindings:
  assumes "new = drop (length (listeners ed)) (listeners (subscribe ed))"
  shows "[n. (n, h) \<leftarrow> new, h = PropagateChange] =
           [''dataReady'', if undoManager ed then ''change'' else ''selectionCheck''] \<and>
         (''dataReady'', PropagateChange) \<in> set new \<and>
         (undoManager ed \<longrightarrow>
            (''change'', PropagateChange) \<in> set new \<and>
            (''selectionCheck'', PropagateChange) \<notin> set new) \<and>
         (\<not> undoManager ed \<longrightarrow>
            (''selectionCheck'', PropagateChange) \<in> set new \<and>
            (''change'', PropagateChange) \<notin> set new)"
proof -
  from assms have "new =
     [(''focus'', Forward Focus), (''paste'', Forward Paste),
      (''afterPaste'', Forward AfterPaste), (''dragend'', Forward DragEnd),
      (''dragstart'', Forward DragStart), (''drop'', Forward Drop),
      (''fileUploadRequest'', Forward FileUploadRequest),
      (''fileUploadResponse'', Forward FileUploadResponse),
      (''blur'', BlurHandler), (''dataReady'', PropagateChange),
      (if undoManager ed then ''change'' else ''selectionCheck'', PropagateChange)]"
    by (simp add: listeners_subscribe)
  then show ?thesis by simp
qed

theorem subscribe_bindings_witness:
  "(''change'', PropagateChange) \<in> set (listeners (subscribe paragraph_editor)) \<and>
   (''selectionCheck'', PropagateChange) \<notin> set (listeners (subscribe paragraph_editor)) \<and>
   (''selectionCheck'', PropagateChange)
      \<in> set (listeners (subscribe (paragraph_editor\<lparr> undoManager := False \<rparr>))) \<and>
   (''change'', PropagateChange)
      \<notin> set (listeners (subscribe (paragraph_editor\<lparr> undoManager := False \<rparr>)))"
proof -
  have l: "listeners paragraph_editor = []"
    "listeners (paragraph_editor\<lparr> undoManager := False \<rparr>) = []"
    by (simp_all add: paragraph_editor_def)
  have u: "undoManager paragraph_editor"
    "\<not> undoManager (paragraph_editor\<lparr> undoManager := False \<rparr>)"
    by (simp_all add: paragraph_editor_def)
  have a: "listeners (subscribe paragraph_editor)
             = drop (length (listeners paragraph_editor)) (listeners (subscribe paragraph_editor))"
    by (simp add: l)
  have b: "listeners (subscribe (paragraph_editor\<lparr> undoManager := False \<rparr>))
             = drop (length (listeners (paragraph_editor\<lparr> undoManager := False \<rparr>)))
                 (listeners (subscribe (paragraph_editor\<lparr> undoManager := False \<rparr>)))"
    by (simp add: l)
  from subscribe_bindings [OF a] u(1) subscribe_bindings [OF b] u(2)
  show ?thesis by blast
qed

text \<open>
  C3, as stated, at two teardowns that come before the creation sequence is complete.
  First, a fresh component is torn down while the namespace is loading: when the loader
  then calls the callback it was given, \<^verbatim>\<open>namespaceLoaded\<close> is emitted, after the
  teardown. Second, a fresh component is torn down after \<^verbatim>\<open>createEditor\<close> has run and
  before the library calls the ready handler: \<^verbatim>\<open>ngOnDestroy\<close> finds no instance to
  destroy, and the handler, which does not look at the latch, stores the editor in the
  destroyed component and emits \<^verbatim>\<open>ready\<close>.
\<close>

theorem outputs_after_teardown:
  "Emit NamespaceLoaded
     \<in> set (added (ngOnDestroy new_component)
                   (ngAfterViewInit spaceless_platform (Loaded True)
                      (ngOnDestroy new_component))) \<and>
   (case instanceReady False paragraph_editor
           (ngOnDestroy (ngAfterViewInit spaceless_platform (Loaded False) new_component)) of
      Inl err \<Rightarrow> False
    | Inr c' \<Rightarrow>
        priv_destroyed c' \<and> inst c' \<noteq> None \<and>
        added (ngOnDestroy (ngAfterViewInit spaceless_platform (Loaded False) new_component)) c'
          = [Call (SetReadOnly False), Emit Ready])"
proof -
  have "ngAfterViewInit spaceless_platform (Loaded True) (ngOnDestroy new_component)
          = emit NamespaceLoaded (ngOnDestroy new_component)"
    using ngAfterViewInit_destroyed [OF ngOnDestroy_fields(1), of spaceless_platform True
        new_component]
    by simp
  then have "log (ngAfterViewInit spaceless_platform (Loaded True) (ngOnDestroy new_component))
          = log (ngOnDestroy new_component) @ [Emit NamespaceLoaded]"
    by (simp add: emit_def record_action_fields)
  then have "added (ngOnDestroy new_component)
                   (ngAfterViewInit spaceless_platform (Loaded True) (ngOnDestroy new_component))
               = [Emit NamespaceLoaded]"
    by (rule added_append)
  then have first: "Emit NamespaceLoaded
     \<in> set (added (ngOnDestroy new_component)
                   (ngAfterViewInit spaceless_platform (Loaded True)
                      (ngOnDestroy new_component)))"
    by simp
  define a where "a = ngAfterViewInit spaceless_platform (Loaded False) new_component"
  define d where "d = ngOnDestroy a"
  have n: "\<not> priv_destroyed new_component" "priv_data new_component = None"
    "priv_readOnly new_component = None"
    by (simp_all add: new_component_def)
  have a: "priv_data a = None" "priv_readOnly a = None"
    using ngAfterViewInit_live(3,4) [OF n(1), of spaceless_platform] n(2,3)
    by (simp_all add: a_def)
  have d: "priv_data d = None" "priv_readOnly d = None" "priv_destroyed d"
    using a by (simp_all add: d_def ngOnDestroy_fields)
  have r: "False = (case priv_readOnly d of Some b \<Rightarrow> b | None \<Rightarrow> readOnly paragraph_editor)"
    by (simp add: d(2) paragraph_editor_fields)
  obtain c' where
    i: "instanceReady False paragraph_editor d = Inr c'" and
    s: "inst c' = Some (subscribe (editor_setReadOnly False paragraph_editor))" and
    pd: "priv_destroyed c' = priv_destroyed d" and
    l: "log c' = log d @ [Call (SetReadOnly False)] @
             (if False then [UserInstanceReady] else []) @ [Emit Ready]"
    using instanceReady_no_data [OF d(1) r, of False] by (elim exE conjE)
  from l have "log c' = log d @ [Call (SetReadOnly False), Emit Ready]" by simp
  then have "added d c' = [Call (SetReadOnly False), Emit Ready]" by (rule added_append)
  with i s pd d(3) have
    "(case instanceReady False paragraph_editor d of
        Inl err \<Rightarrow> False
      | Inr c' \<Rightarrow>
          priv_destroyed c' \<and> inst c' \<noteq> None \<and>
          added d c' = [Call (SetReadOnly False), Emit Ready])"
    by simp
  with first show ?thesis unfolding d_def a_def by (rule conjI)
qed

text \<open>
  C3, amended. \<^verbatim>\<open>ngOnDestroy\<close> sets the latch and leaves no instance. When the namespace
  promise resolves on a component whose latch is set, the continuation returns at once:
  \<^verbatim>\<open>createEditor\<close> is not called, so no host element and no editor are made, the instance
  stays as it was, no error is reported, and the only output that can still be emitted is
  \<^verbatim>\<open>namespaceLoaded\<close>, by the loader's callback, which does not look at the latch. With
  the latch not set the same continuation calls \<^verbatim>\<open>createEditor\<close>: it makes the element
  and calls the library's constructor, and an error thrown by either step is reported to
  \<^verbatim>\<open>console.error\<close>. A rejected promise is reported to \<^verbatim>\<open>console.error\<close> and nothing else
  happens.
\<close>

theorem teardown_abandons_creation:
  "priv_destroyed (ngOnDestroy c) \<and> inst (ngOnDestroy c) = None \<and>
   (priv_destroyed d \<longrightarrow>
      ngAfterViewInit p (Loaded False) d = d \<and>
      ngAfterViewInit p (Loaded True) d = emit NamespaceLoaded d \<and>
      inst (ngAfterViewInit p (Loaded called_back) d) = inst d \<and>
      priv_destroyed (ngAfterViewInit p (Loaded called_back) d) \<and>
      added d (ngAfterViewInit p (Loaded called_back) d)
        = (if called_back then [Emit NamespaceLoaded] else [])) \<and>
   (\<not> priv_destroyed d \<and> element_ok p (tagName d) \<and>
    construct_ok p (if ed_type d = INLINE then INLINE else CLASSIC) (tagName d) \<longrightarrow>
      added d (ngAfterViewInit p (Loaded False) d)
        = [CreateElement (tagName d), Construct (if ed_type d = INLINE then INLINE else CLASSIC)]) \<and>
   (\<not> priv_destroyed d \<and> \<not> element_ok p (tagName d) \<longrightarrow>
      added d (ngAfterViewInit p (Loaded False) d) = [ConsoleError]) \<and>
   (\<not> priv_destroyed d \<and> element_ok p (tagName d) \<and>
    \<not> construct_ok p (if ed_type d = INLINE then INLINE else CLASSIC) (tagName d) \<longrightarrow>
      added d (ngAfterViewInit p (Loaded False) d) = [CreateElement (tagName d), ConsoleError]) \<and>
   added d (ngAfterViewInit p Failed d) = [ConsoleError]"
proof -
  have 0: "priv_destroyed (ngOnDestroy c) \<and> inst (ngOnDestroy c) = None"
    by (simp add: ngOnDestroy_fields)
  have 1: "priv_destroyed d \<longrightarrow>
      ngAfterViewInit p (Loaded False) d = d \<and>
      ngAfterViewInit p (Loaded True) d = emit NamespaceLoaded d \<and>
      inst (ngAfterViewInit p (Loaded called_back) d) = inst d \<and>
      priv_destroyed (ngAfterViewInit p (Loaded called_back) d) \<and>
      added d (ngAfterViewInit p (Loaded called_back) d)
        = (if called_back then [Emit NamespaceLoaded] else [])"
    by (simp add: ngAfterViewInit_destroyed emit_def record_action_fields added_def
        del: ngAfterViewInit.simps)
  have 2: "\<not> priv_destroyed d \<and> element_ok p (tagName d) \<and>
    construct_ok p (if ed_type d = INLINE then INLINE else CLASSIC) (tagName d) \<longrightarrow>
      added d (ngAfterViewInit p (Loaded False) d)
        = [CreateElement (tagName d), Construct (if ed_type d = INLINE then INLINE else CLASSIC)]"
    by (simp add: ngAfterViewInit_live(1) added_def del: ngAfterViewInit.simps)
  have 3: "\<not> priv_destroyed d \<and> \<not> element_ok p (tagName d) \<longrightarrow>
      added d (ngAfterViewInit p (Loaded False) d) = [ConsoleError]"
    by (simp add: ngAfterViewInit_live(1) added_def del: ngAfterViewInit.simps)
  have 4: "\<not> priv_destroyed d \<and> element_ok p (tagName d) \<and>
    \<not> construct_ok p (if ed_type d = INLINE then INLINE else CLASSIC) (tagName d) \<longrightarrow>
      added d (ngAfterViewInit p (Loaded False) d) = [CreateElement (tagName d), ConsoleError]"
    by (simp add: ngAfterViewInit_live(1) added_def del: ngAfterViewInit.simps)
  have 5: "added d (ngAfterViewInit p Failed d) = [ConsoleError]"
    by (simp add: added_def record_action_fields)
  from 0 1 2 3 4 5 show ?thesis by (intro conjI) simp_all
qed

theorem teardown_abandons_creation_witness:
  "ngAfterViewInit spaceless_platform (Loaded False) (ngOnDestroy new_component)
     = ngOnDestroy new_component \<and>
   inst (ngAfterViewInit spaceless_platform (Loaded True) (ngOnDestroy new_component)) = None \<and>
   added new_component (ngAfterViewInit spaceless_platform (Loaded False) new_component)
     = [CreateElement ''textarea'', Construct CLASSIC] \<and>
   added (new_component\<lparr> tagName := ''a b'' \<rparr>)
         (ngAfterViewInit spaceless_platform (Loaded False) (new_component\<lparr> tagName := ''a b'' \<rparr>))
     = [ConsoleError]"
proof -
  have d: "priv_destroyed (ngOnDestroy new_component)"
    and i: "inst (ngOnDestroy new_component) = None"
    by (simp_all add: ngOnDestroy_fields)
  have n: "\<not> priv_destroyed new_component" "tagName new_component = ''textarea''"
    "ed_type new_component = CLASSIC"
    by (simp_all add: new_component_def)
  have ok: "element_ok spaceless_platform ''textarea''"
    "construct_ok spaceless_platform CLASSIC ''textarea''"
    "\<not> element_ok spaceless_platform ''a b''"
    by (simp_all add: spaceless_platform_def)
  have m: "\<not> priv_destroyed (new_component\<lparr> tagName := ''a b'' \<rparr>)"
    "tagName (new_component\<lparr> tagName := ''a b'' \<rparr>) = ''a b''"
    by (simp_all add: new_component_def)
  from teardown_abandons_creation
         [of new_component "ngOnDestroy new_component" spaceless_platform True] d i
  have "ngAfterViewInit spaceless_platform (Loaded False) (ngOnDestroy new_component)
          = ngOnDestroy new_component \<and>
        inst (ngAfterViewInit spaceless_platform (Loaded True) (ngOnDestroy new_component)) = None"
    by metis
  moreover from teardown_abandons_creation
         [of new_component new_component spaceless_platform True] n ok
  have "added new_component (ngAfterViewInit spaceless_platform (Loaded False) new_component)
     = [CreateElement ''textarea'', Construct CLASSIC]"
    by (simp del: ngAfterViewInit.simps)
  moreover from teardown_abandons_creation
         [of new_component "new_component\<lparr> tagName := ''a b'' \<rparr>" spaceless_platform True] m ok
  have "added (new_component\<lparr> tagName := ''a b'' \<rparr>)
         (ngAfterViewInit spaceless_platform (Loaded False) (new_component\<lparr> tagName := ''a b'' \<rparr>))
     = [ConsoleError]"
    by (simp del: ngAfterViewInit.simps)
  ultimately show ?thesis by blast
qed

text \<open>
  C4, as stated, at a component to which \<^verbatim>\<open>'hello'\<close> was written and an editor with an
  undo manager that serializes the text as a paragraph: after the ready handler the
  instance's content differs from the value supplied, yet no \<^verbatim>\<open>change\<close> event was fired.
  The \<^verbatim>\<open>dataReady\<close> that \<^verbatim>\<open>setData\<close> raises has run \<^verbatim>\<open>propagateChange\<close> before the
  callback, so the cache, which is what the callback compares, already holds the content.
\<close>

theorem ready_handler_fires_nothing:
  "(case instanceReady True paragraph_editor written_component of
      Inl err \<Rightarrow> False
    | Inr c' \<Rightarrow>
        map_option editor_getData (inst c') = Some ''<p>hello</p>'' \<and>
        Call (Fire ''change'') \<notin> set (log c'))"
proof -
  define r where
    "r = (case priv_readOnly written_component of Some b \<Rightarrow> b | None \<Rightarrow> readOnly paragraph_editor)"
  define e' where
    "e' = editor_setData (Some ''hello'') (subscribe (editor_setReadOnly r paragraph_editor))"
  obtain c' xs where
    a: "instanceReady True paragraph_editor written_component = Inr c'" and
    b: "inst c' = Some e'" and
    l: "log c' = log written_component @ [Call (SetReadOnly r)] @
             (if undoManager paragraph_editor then [Call UndoLock] else []) @
             [Call (SetData (Some ''hello''))] @ xs @ [Call GetData] @
             (if undoManager paragraph_editor then [Call UndoUnlock] else []) @
             (if True then [UserInstanceReady] else []) @ [Emit Ready]" and
    f: "\<forall>n. Call (Fire n) \<notin> set xs"
    using instanceReady_data [OF written_component_fields(1) r_def e'_def, of True]
    by (elim exE conjE)
  have g: "editor_getData e' = ''<p>hello</p>''"
    by (simp add: editor_getData_def e'_def editor_setData_fields subscribe_fields
        editor_setReadOnly_fields acf_paragraph_hello)
  have nf: "Call (Fire ''change'') \<notin> set (log c')"
    using f by (simp add: l written_component_fields)
  from a b g nf show ?thesis by simp
qed

text \<open>
  C4, amended. The ready handler on a component with cached data \<open>d\<close> returns normally.
  After resolving the read-only state it locks the undo manager if there is one and
  calls \<^verbatim>\<open>setData\<close> with \<open>d\<close>. The \<^verbatim>\<open>dataReady\<close> that \<^verbatim>\<open>setData\<close> raises runs the listeners
  of that event (\<open>xs\<close> is what they add to the log: on an editor that had no listener
  before, one run of \<^verbatim>\<open>propagateChange\<close>, which puts the content into the cache). The
  completion callback then reads the content, finds it equal to the cache and fires
  nothing, unlocks the undo manager, and only after that calls the user's ready callback,
  if there is one, and emits \<^verbatim>\<open>ready\<close>. At the end the cache equals what \<^verbatim>\<open>getData\<close>
  returns. The callback taken alone, on a component that holds the editor with
  \<^verbatim>\<open>propagateChange\<close> bound to the event: it fires \<^verbatim>\<open>change\<close>, or \<^verbatim>\<open>dataReady\<close> when there is
  no undo manager, exactly when the cache differs from the content; then it unlocks,
  calls the user's callback and emits \<^verbatim>\<open>ready\<close>, and the cache equals the content.
\<close>

theorem instanceReady_initial_data:
  "(priv_data c = Some d \<longrightarrow>
      (\<exists>c' e' xs. instanceReady cb ed c = Inr c' \<and> inst c' = Some e' \<and>
         editor_getData e' = acf ed (Some d) \<and>
         priv_data c' = Some (editor_getData e') \<and>
         added c c' =
           [Call (SetReadOnly (case priv_readOnly c of Some b \<Rightarrow> b | None \<Rightarrow> readOnly ed))] @
           (if undoManager ed then [Call UndoLock] else []) @
           [Call (SetData (Some d))] @ xs @ [Call GetData] @
           (if undoManager ed then [Call UndoUnlock] else []) @
           (if cb then [UserInstanceReady] else []) @ [Emit Ready] \<and>
         (\<forall>n. Call (Fire n) \<notin> set xs) \<and>
         (listeners ed = [] \<longrightarrow> xs = propagated ''dataReady'' c (acf ed (Some d))))) \<and>
   (inst k = Some e \<and>
    (if undo then ''change'' else ''dataReady'', PropagateChange) \<in> set (listeners e) \<longrightarrow>
      (\<exists>k' ys. setData_callback cb undo e k = Inr k' \<and>
         added k k' =
           Call GetData #
           (if priv_data k \<noteq> Some (editor_getData e)
            then Call (Fire (if undo then ''change'' else ''dataReady'')) # ys else []) @
           (if undo then [Call UndoUnlock] else []) @
           (if cb then [UserInstanceReady] else []) @ [Emit Ready] \<and>
         (\<forall>n. Call (Fire n) \<notin> set ys) \<and>
         priv_data k' = Some (editor_getData e)))"
proof (intro conjI impI)
  assume pd: "priv_data c = Some d"
  define r where "r = (case priv_readOnly c of Some b \<Rightarrow> b | None \<Rightarrow> readOnly ed)"
  define e' where "e' = editor_setData (Some d) (subscribe (editor_setReadOnly r ed))"
  obtain c' xs where
    a: "instanceReady cb ed c = Inr c'" and b: "inst c' = Some e'" and
    p: "priv_data c' = Some (content e')" and
    l: "log c' = log c @ [Call (SetReadOnly r)] @
             (if undoManager ed then [Call UndoLock] else []) @
             [Call (SetData (Some d))] @ xs @ [Call GetData] @
             (if undoManager ed then [Call UndoUnlock] else []) @
             (if cb then [UserInstanceReady] else []) @ [Emit Ready]" and
    f: "\<forall>n. Call (Fire n) \<notin> set xs" and
    x: "listeners ed = [] \<longrightarrow> xs = propagated ''dataReady'' c (acf ed (Some d))"
    using instanceReady_data [OF pd r_def e'_def, of cb] by (elim exE conjE)
  have g: "editor_getData e' = acf ed (Some d)"
    by (simp add: editor_getData_def e'_def editor_setData_fields subscribe_fields
        editor_setReadOnly_fields)
  have p': "priv_data c' = Some (editor_getData e')"
    using p by (simp add: editor_getData_def)
  have l': "added c c' = [Call (SetReadOnly r)] @
             (if undoManager ed then [Call UndoLock] else []) @
             [Call (SetData (Some d))] @ xs @ [Call GetData] @
             (if undoManager ed then [Call UndoUnlock] else []) @
             (if cb then [UserInstanceReady] else []) @ [Emit Ready]"
    using l by (rule added_append)
  from a b g p' l' f x
  show "\<exists>c' e' xs. instanceReady cb ed c = Inr c' \<and> inst c' = Some e' \<and>
         editor_getData e' = acf ed (Some d) \<and>
         priv_data c' = Some (editor_getData e') \<and>
         added c c' =
           [Call (SetReadOnly (case priv_readOnly c of Some b \<Rightarrow> b | None \<Rightarrow> readOnly ed))] @
           (if undoManager ed then [Call UndoLock] else []) @
           [Call (SetData (Some d))] @ xs @ [Call GetData] @
           (if undoManager ed then [Call UndoUnlock] else []) @
           (if cb then [UserInstanceReady] else []) @ [Emit Ready] \<and>
         (\<forall>n. Call (Fire n) \<notin> set xs) \<and>
         (listeners ed = [] \<longrightarrow> xs = propagated ''dataReady'' c (acf ed (Some d)))"
    unfolding r_def by blast
next
  assume h: "inst k = Some e \<and>
    (if undo then ''change'' else ''dataReady'', PropagateChange) \<in> set (listeners e)"
  then have i: "inst k = Some e"
    and b: "(if undo then ''change'' else ''dataReady'', PropagateChange) \<in> set (listeners e)"
    by simp_all
  obtain k' ys where
    a: "setData_callback cb undo e k = Inr k'" and
    l: "log k' = log k @ Call GetData #
             (if priv_data k \<noteq> Some (editor_getData e)
              then Call (Fire (if undo then ''change'' else ''dataReady'')) # ys else []) @
             (if undo then [Call UndoUnlock] else []) @
             (if cb then [UserInstanceReady] else []) @ [Emit Ready]" and
    f: "\<forall>n. Call (Fire n) \<notin> set ys" and
    p: "priv_data k' = Some (editor_getData e)"
    using setData_callback_Inr [OF i refl b, of cb] by (elim exE conjE)
  from l have l': "added k k' = Call GetData #
             (if priv_data k \<noteq> Some (editor_getData e)
              then Call (Fire (if undo then ''change'' else ''dataReady'')) # ys else []) @
             (if undo then [Call UndoUnlock] else []) @
             (if cb then [UserInstanceReady] else []) @ [Emit Ready]"
    by (rule added_append)
  from a l' f p
  show "\<exists>k' ys. setData_callback cb undo e k = Inr k' \<and>
         added k k' =
           Call GetData #
           (if priv_data k \<noteq> Some (editor_getData e)
            then Call (Fire (if undo then ''change'' else ''dataReady'')) # ys else []) @
           (if undo then [Call UndoUnlock] else []) @
           (if cb then [UserInstanceReady] else []) @ [Emit Ready] \<and>
         (\<forall>n. Call (Fire n) \<notin> set ys) \<and>
         priv_data k' = Some (editor_getData e)"
    by blast
qed

theorem instanceReady_initial_data_witness:
  "(\<exists>c'. instanceReady True paragraph_editor written_component = Inr c' \<and>
         priv_data c' = Some ''<p>hello</p>'' \<and>
         added written_component c' =
           [Call (SetReadOnly False), Call UndoLock, Call (SetData (Some ''hello'')),
            Call GetData, Emit DataReady, Emit (DataChange ''<p>hello</p>''),
            OnChange ''<p>hello</p>'', Call GetData, Call UndoUnlock,
            UserInstanceReady, Emit Ready]) \<and>
   (\<exists>k'. setData_callback False True (subscribe paragraph_editor) stale_component = Inr k' \<and>
         priv_data k' = Some [] \<and>
         Call (Fire ''change'') \<in> set (added stale_component k'))"
proof -
  obtain c' e' xs where
    a: "instanceReady True paragraph_editor written_component = Inr c'" and
    g: "editor_getData e' = acf paragraph_editor (Some ''hello'')" and
    p: "priv_data c' = Some (editor_getData e')" and
    l: "added written_component c' =
           [Call (SetReadOnly (case priv_readOnly written_component of
                                 Some b \<Rightarrow> b | None \<Rightarrow> readOnly paragraph_editor))] @
           (if undoManager paragraph_editor then [Call UndoLock] else []) @
           [Call (SetData (Some ''hello''))] @ xs @ [Call GetData] @
           (if undoManager paragraph_editor then [Call UndoUnlock] else []) @
           (if True then [UserInstanceReady] else []) @ [Emit Ready]" and
    x: "listeners paragraph_editor = [] \<longrightarrow>
          xs = propagated ''dataReady'' written_component
                 (acf paragraph_editor (Some ''hello''))"
    using instanceReady_initial_data
            [of written_component "''hello''" True paragraph_editor stale_component
                "subscribe paragraph_editor" True,
             THEN conjunct1, THEN mp, OF written_component_fields(1)]
    by (elim exE conjE)
  from x have xs: "xs = [Call GetData, Emit DataReady, Emit (DataChange ''<p>hello</p>''),
                         OnChange ''<p>hello</p>'']"
    by (simp add: paragraph_editor_fields acf_paragraph_hello propagated_def
        written_component_fields)
  from p g have "priv_data c' = Some ''<p>hello</p>''"
    by (simp add: acf_paragraph_hello)
  moreover from l have "added written_component c' =
           [Call (SetReadOnly False), Call UndoLock, Call (SetData (Some ''hello'')),
            Call GetData, Emit DataReady, Emit (DataChange ''<p>hello</p>''),
            OnChange ''<p>hello</p>'', Call GetData, Call UndoUnlock,
            UserInstanceReady, Emit Ready]"
    by (simp add: xs paragraph_editor_fields written_component_fields)
  ultimately have first:
    "\<exists>c'. instanceReady True paragraph_editor written_component = Inr c' \<and>
         priv_data c' = Some ''<p>hello</p>'' \<and>
         added written_component c' =
           [Call (SetReadOnly False), Call UndoLock, Call (SetData (Some ''hello'')),
            Call GetData, Emit DataReady, Emit (DataChange ''<p>hello</p>''),
            OnChange ''<p>hello</p>'', Call GetData, Call UndoUnlock,
            UserInstanceReady, Emit Ready]"
    using a by blast
  have si: "inst stale_component = Some (subscribe paragraph_editor)"
    and sd: "priv_data stale_component = Some ''x''"
    by (simp_all add: stale_component_def)
  have sb: "(if True then ''change'' else ''dataReady'', PropagateChange)
              \<in> set (listeners (subscribe paragraph_editor))"
    by (simp add: listeners_subscribe paragraph_editor_fields)
  have sg: "editor_getData (subscribe paragraph_editor) = []"
    by (simp add: editor_getData_def subscribe_fields paragraph_editor_def)
  obtain k' ys where
    ka: "setData_callback False True (subscribe paragraph_editor) stale_component = Inr k'" and
    kl: "added stale_component k' =
           Call GetData #
           (if priv_data stale_component \<noteq> Some (editor_getData (subscribe paragraph_editor))
            then Call (Fire (if True then ''change'' else ''dataReady'')) # ys else []) @
           (if True then [Call UndoUnlock] else []) @
           (if False then [UserInstanceReady] else []) @ [Emit Ready]" and
    kp: "priv_data k' = Some (editor_getData (subscribe paragraph_editor))"
    using instanceReady_initial_data
            [of written_component "''hello''" False paragraph_editor stale_component
                "subscribe paragraph_editor" True,
             THEN conjunct2, THEN mp, OF conjI [OF si sb]]
    by (elim exE conjE)
  have "Call (Fire ''change'') \<in> set (added stale_component k')"
    by (simp add: kl sd sg)
  with ka kp sg have second:
    "\<exists>k'. setData_callback False True (subscribe paragraph_editor) stale_component = Inr k' \<and>
         priv_data k' = Some [] \<and>
         Call (Fire ''change'') \<in> set (added stale_component k')"
    by auto
  from first second show ?thesis by (rule conjI)
qed

text \<open>
  C5: with no instance, a write of the read-only flag is stored in the component and
  calls nothing, and a read returns the stored value. With an instance, a write is one
  \<^verbatim>\<open>setReadOnly\<close> call on it and leaves the stored value alone, and a read returns the
  instance's \<^verbatim>\<open>readOnly\<close>. The ready handler starts with one \<^verbatim>\<open>setReadOnly\<close> call, with the
  stored value when there is one and the instance's own value otherwise, makes no other
  such call, and afterwards a read returns that value.
\<close>

theorem readOnly_deferred:
  "(inst c = None \<longrightarrow>
      set_readOnly b c = c\<lparr> priv_readOnly := Some b \<rparr> \<and>
      get_readOnly c = priv_readOnly c \<and>
      get_readOnly (set_readOnly b c) = Some b) \<and>
   (inst c = Some e \<longrightarrow>
      added c (set_readOnly b c) = [Call (SetReadOnly b)] \<and>
      inst (set_readOnly b c) = Some (editor_setReadOnly b e) \<and>
      priv_readOnly (set_readOnly b c) = priv_readOnly c \<and>
      get_readOnly c = Some (readOnly e) \<and>
      get_readOnly (set_readOnly b c) = Some b) \<and>
   (\<exists>c' ys. instanceReady cb ed c = Inr c' \<and>
      added c c' =
        Call (SetReadOnly (case priv_readOnly c of Some p \<Rightarrow> p | None \<Rightarrow> readOnly ed)) # ys \<and>
      setReadOnly_calls ys = [] \<and>
      get_readOnly c' = Some (case priv_readOnly c of Some p \<Rightarrow> p | None \<Rightarrow> readOnly ed))"
proof -
  have 1: "inst c = None \<longrightarrow>
      set_readOnly b c = c\<lparr> priv_readOnly := Some b \<rparr> \<and>
      get_readOnly c = priv_readOnly c \<and>
      get_readOnly (set_readOnly b c) = Some b"
    by (simp add: set_readOnly_def get_readOnly_def)
  have 2: "inst c = Some e \<longrightarrow>
      added c (set_readOnly b c) = [Call (SetReadOnly b)] \<and>
      inst (set_readOnly b c) = Some (editor_setReadOnly b e) \<and>
      priv_readOnly (set_readOnly b c) = priv_readOnly c \<and>
      get_readOnly c = Some (readOnly e) \<and>
      get_readOnly (set_readOnly b c) = Some b"
    by (simp add: set_readOnly_def get_readOnly_def on_instance_fields added_def
        editor_setReadOnly_fields)
  from instanceReady_readOnly [of cb ed c]
  have 3: "\<exists>c' ys. instanceReady cb ed c = Inr c' \<and>
      added c c' =
        Call (SetReadOnly (case priv_readOnly c of Some p \<Rightarrow> p | None \<Rightarrow> readOnly ed)) # ys \<and>
      setReadOnly_calls ys = [] \<and>
      get_readOnly c' = Some (case priv_readOnly c of Some p \<Rightarrow> p | None \<Rightarrow> readOnly ed)"
    by blast
  from 1 2 3 show ?thesis by (intro conjI)
qed

theorem readOnly_deferred_witness:
  "get_readOnly (set_readOnly True new_component) = Some True \<and>
   log (set_readOnly True new_component) = [] \<and>
   (\<exists>c'. instanceReady False paragraph_editor (set_readOnly True new_component) = Inr c' \<and>
         setReadOnly_calls (added (set_readOnly True new_component) c') = [True] \<and>
         get_readOnly c' = Some True) \<and>
   added example_component (set_readOnly True example_component) = [Call (SetReadOnly True)]"
proof -
  have n: "inst new_component = None" "log new_component = []"
    by (simp_all add: new_component_def)
  have s: "set_readOnly True new_component = new_component\<lparr> priv_readOnly := Some True \<rparr>"
    and g: "get_readOnly (set_readOnly True new_component) = Some True"
    using readOnly_deferred [of new_component True paragraph_editor False paragraph_editor] n(1)
    by blast+
  have l: "log (set_readOnly True new_component) = []"
    by (simp add: s n)
  have pr: "priv_readOnly (set_readOnly True new_component) = Some True"
    by (simp add: s)
  obtain c' ys where
    a: "instanceReady False paragraph_editor (set_readOnly True new_component) = Inr c'" and
    ad: "added (set_readOnly True new_component) c' =
        Call (SetReadOnly (case priv_readOnly (set_readOnly True new_component) of
                             Some p \<Rightarrow> p | None \<Rightarrow> readOnly paragraph_editor)) # ys" and
    sy: "setReadOnly_calls ys = []" and
    gr: "get_readOnly c' = Some (case priv_readOnly (set_readOnly True new_component) of
                             Some p \<Rightarrow> p | None \<Rightarrow> readOnly paragraph_editor)"
    using readOnly_deferred [of "set_readOnly True new_component" True paragraph_editor False
        paragraph_editor]
    by (elim exE conjE)
  have "setReadOnly_calls (added (set_readOnly True new_component) c') = [True]"
    by (simp add: ad pr sy setReadOnly_calls_simps)
  moreover have "get_readOnly c' = Some True"
    by (simp add: gr pr)
  moreover have "added example_component (set_readOnly True example_component)
                   = [Call (SetReadOnly True)]"
    using readOnly_deferred [of example_component True paragraph_editor False paragraph_editor]
      example_component_fields(1)
    by blast
  ultimately show ?thesis using g l a by blast
qed

end
